theory Spec2Isabelle
  imports Main
begin

section \<open>JavaScript values of the readers\<close>

text \<open>
  The readers of \<^verbatim>\<open>jheatmap.readers\<close> work on parsed tables: a header (an array of
  field names) and an array of records, each an array of string fields. Reading an array
  out of range gives \<^verbatim>\<open>undefined\<close>, and \<^verbatim>\<open>undefined.toString()\<close> throws a TypeError;
  both are values of the model.
\<close>

datatype error = TypeError

datatype fieldval = Undefined | Str string

text \<open>An entry of \<^verbatim>\<open>heatmap.cells.values\<close>: a record, \<^verbatim>\<open>null\<close>, or no entry at all (a
  hole of the array, read as \<^verbatim>\<open>undefined\<close>).\<close>

datatype cell = Hole | Null | Rec "fieldval list"

text \<open>\<^verbatim>\<open>x.toString()\<close> on a field.\<close>

fun toString :: "fieldval \<Rightarrow> error + string" where
  "toString Undefined = Inl TypeError"
| "toString (Str s) = Inr s"

text \<open>The property name a field is converted to in \<^verbatim>\<open>obj[x]\<close>.\<close>

fun property_key :: "fieldval \<Rightarrow> string" where
  "property_key Undefined = ''undefined''"
| "property_key (Str s) = s"

text \<open>\<^verbatim>\<open>xs[k]\<close> where \<^verbatim>\<open>k\<close> is a number or \<^verbatim>\<open>undefined\<close> (\<open>None\<close>): out of range,
  at \<open>-1\<close> and at \<^verbatim>\<open>undefined\<close> the read gives \<^verbatim>\<open>undefined\<close>.\<close>

fun get_field :: "fieldval list \<Rightarrow> int option \<Rightarrow> fieldval" where
  "get_field xs None = Undefined"
| "get_field xs (Some k) = (if 0 \<le> k \<and> nat k < length xs then xs ! nat k else Undefined)"

text \<open>\<^verbatim>\<open>xs[p] = v\<close>: JavaScript extends the array when \<^verbatim>\<open>p\<close> is past its end, leaving
  holes in between.\<close>

definition array_set :: "'a \<Rightarrow> 'a list \<Rightarrow> nat \<Rightarrow> 'a \<Rightarrow> 'a list" where
  "array_set hole xs p v =
     (if p < length xs then xs[p := v] else xs @ replicate (p - length xs) hole @ [v])"

text \<open>\<^verbatim>\<open>$.inArray(x, ys)\<close>: the first index of \<^verbatim>\<open>x\<close> in \<^verbatim>\<open>ys\<close>, or \<open>-1\<close>.\<close>

fun inArray_from :: "fieldval \<Rightarrow> fieldval list \<Rightarrow> int \<Rightarrow> int" where
  "inArray_from x [] i = -1"
| "inArray_from x (y # ys) i = (if y = x then i else inArray_from x ys (i + 1))"

definition inArray :: "fieldval \<Rightarrow> fieldval list \<Rightarrow> int" where
  "inArray x ys = inArray_from x ys 0"

subsection \<open>The hashes\<close>

text \<open>
  \<^verbatim>\<open>rowHash\<close> and \<^verbatim>\<open>colHash\<close> are plain objects (\<^verbatim>\<open>{}\<close>). The map holds their own
  properties. A read of a name the object does not own falls back to
  \<^verbatim>\<open>Object.prototype\<close>, which gives a function or an object, neither
  \<^verbatim>\<open>undefined\<close> nor a number, for the names below. An assignment to \<^verbatim>\<open>__proto__\<close> of a
  number is ignored.
\<close>

type_synonym hash = "string \<rightharpoonup> nat"

datatype lookup = Missing | Inherited | Pos nat

definition Object_prototype :: "string list" where
  "Object_prototype =
     [''constructor'', ''toString'', ''toLocaleString'', ''valueOf'', ''hasOwnProperty'',
      ''isPrototypeOf'', ''propertyIsEnumerable'', ''__proto__'', ''__defineGetter__'',
      ''__defineSetter__'', ''__lookupGetter__'', ''__lookupSetter__'']"

definition hash_get :: "hash \<Rightarrow> string \<Rightarrow> lookup" where
  "hash_get h k =
     (case h k of
        Some p \<Rightarrow> Pos p
      | None \<Rightarrow> if k \<in> set Object_prototype then Inherited else Missing)"

definition hash_set :: "hash \<Rightarrow> string \<Rightarrow> nat \<Rightarrow> hash" where
  "hash_set h k p = (if k = ''__proto__'' then h else h(k \<mapsto> p))"

section \<open>The heatmap\<close>

text \<open>
  The part of the heatmap object the matrix readers touch. \<open>data_rows\<close> and
  \<open>data_cols\<close> say whether \<^verbatim>\<open>options.data.rows\<close> and \<^verbatim>\<open>options.data.cols\<close> are defined
  (an annotation table was supplied); \<open>rows_annotations\<close> and \<open>cols_annotations\<close> are
  \<^verbatim>\<open>options.data.rows_annotations\<close> and \<^verbatim>\<open>options.data.cols_annotations\<close>, \<open>None\<close> when
  undefined.
\<close>

record heatmap =
  data_rows :: bool
  data_cols :: bool
  rows_annotations :: "nat list option"
  cols_annotations :: "nat list option"
  rows_header :: "fieldval list"
  rows_values :: "fieldval list list"
  cols_header :: "fieldval list"
  cols_values :: "fieldval list list"
  cells_header :: "fieldval list"
  cells_values :: "cell list"
  cells_ready :: bool

text \<open>The local variables \<^verbatim>\<open>rowKey\<close>, \<^verbatim>\<open>valuesRowKey\<close>, \<^verbatim>\<open>colKey\<close> and
  \<^verbatim>\<open>valuesColKey\<close>; \<open>None\<close> is \<^verbatim>\<open>undefined\<close>.\<close>

record keys =
  rowKey :: "nat option"
  valuesRowKey :: "int option"
  colKey :: "nat option"
  valuesColKey :: "int option"

section \<open>TsvMatrixReader.read: the primary keys\<close>

text \<open>
  The loop over \<^verbatim>\<open>heatmap.rows.header\<close>: the assignment to \<^verbatim>\<open>valuesRowKey\<close> sits in the
  condition, so the variable holds the last search result also when no field matches.
  The arguments are the fields left to scan, the cell header, the index \<^verbatim>\<open>i\<close> and the
  current \<^verbatim>\<open>valuesRowKey\<close>.
\<close>

fun scan_row_key ::
  "fieldval list \<Rightarrow> fieldval list \<Rightarrow> nat \<Rightarrow> int option \<Rightarrow> nat option \<times> int option" where
  "scan_row_key [] ch i vk = (None, vk)"
| "scan_row_key (f # fs) ch i vk =
     (let vk' = inArray f ch
      in if vk' > -1 then (Some i, Some vk') else scan_row_key fs ch (i + 1) (Some vk'))"

text \<open>The loop over \<^verbatim>\<open>heatmap.cols.header\<close>, with its second test
  \<^verbatim>\<open>valuesColKey != valuesRowKey\<close>.\<close>

fun scan_col_key ::
  "fieldval list \<Rightarrow> fieldval list \<Rightarrow> int option \<Rightarrow> nat \<Rightarrow> int option \<Rightarrow> nat option \<times> int option"
  where
  "scan_col_key [] ch vrk i vk = (None, vk)"
| "scan_col_key (f # fs) ch vrk i vk =
     (let vk' = inArray f ch
      in if vk' > -1 \<and> Some vk' \<noteq> vrk then (Some i, Some vk')
         else scan_col_key fs ch vrk (i + 1) (Some vk'))"

text \<open>The loop over \<^verbatim>\<open>rows_annotations\<close> (and \<^verbatim>\<open>cols_annotations\<close>): each listed field of
  the cell header is pushed on the axis header and overwritten with \<^verbatim>\<open>undefined\<close>. An
  index past the end extends the cell header; the holes in between read as \<^verbatim>\<open>undefined\<close>
  and are entries \<open>Undefined\<close> here. \<^verbatim>\<open>$.inArray\<close> skips a hole, so the list differs from
  the array only in a search for \<^verbatim>\<open>undefined\<close> itself, which the header of a parsed
  annotation table, a list of strings, never asks for.\<close>

fun move_annotations ::
  "nat list \<Rightarrow> fieldval list \<Rightarrow> fieldval list \<Rightarrow> fieldval list \<times> fieldval list" where
  "move_annotations [] axis_header ch = (axis_header, ch)"
| "move_annotations (a # ann) axis_header ch =
     move_annotations ann (axis_header @ [get_field ch (Some (int a))])
       (array_set Undefined ch a Undefined)"

text \<open>\<^verbatim>\<open>ann[0]\<close>.\<close>

fun first_annotation :: "nat list \<Rightarrow> int option" where
  "first_annotation [] = None"
| "first_annotation (a # ann) = Some (int a)"

definition infer_row_key :: "heatmap \<Rightarrow> nat option \<times> int option \<times> heatmap" where
  "infer_row_key h =
     (if data_rows h then
        (let (rk, vrk) = scan_row_key (rows_header h) (cells_header h) 0 None in (rk, vrk, h))
      else
        (case rows_annotations h of
           Some rowAnn \<Rightarrow>
             (let (rh, ch) = move_annotations rowAnn [] (cells_header h)
              in (Some 0, first_annotation rowAnn, h\<lparr>rows_header := rh, cells_header := ch\<rparr>))
         | None \<Rightarrow>
             (Some 0, Some 1, h\<lparr>rows_header := [get_field (cells_header h) (Some 1)]\<rparr>)))"

definition infer_col_key :: "int option \<Rightarrow> heatmap \<Rightarrow> nat option \<times> int option \<times> heatmap" where
  "infer_col_key vrk h =
     (if data_cols h then
        (let (ck, vck) = scan_col_key (cols_header h) (cells_header h) vrk 0 None in (ck, vck, h))
      else
        (case cols_annotations h of
           Some colAnn \<Rightarrow>
             (let (colh, ch) = move_annotations colAnn [] (cells_header h)
              in (Some 0, first_annotation colAnn, h\<lparr>cols_header := colh, cells_header := ch\<rparr>))
         | None \<Rightarrow>
             (Some 0, Some 0, h\<lparr>cols_header := [get_field (cells_header h) (Some 0)]\<rparr>)))"

definition infer_keys :: "heatmap \<Rightarrow> keys \<times> heatmap" where
  "infer_keys h =
     (let (rk, vrk, h1) = infer_row_key h;
          (ck, vck, h2) = infer_col_key vrk h1
      in (\<lparr>rowKey = rk, valuesRowKey = vrk, colKey = ck, valuesColKey = vck\<rparr>, h2))"

section \<open>TsvMatrixReader.read: the hashes\<close>

text \<open>
  With both annotation tables supplied, each hash is filled from its axis table:
  \<^verbatim>\<open>rowHash[(heatmap.rows.values[i][rowKey]).toString()] = i\<close>. The arguments are the
  records left, the key field, the index \<^verbatim>\<open>i\<close> and the hash so far.
\<close>

fun hash_axis ::
  "fieldval list list \<Rightarrow> nat option \<Rightarrow> nat \<Rightarrow> hash \<Rightarrow> error + hash" where
  "hash_axis [] key i h = Inr h"
| "hash_axis (r # rs) key i h =
     (case toString (get_field r (map_option int key)) of
        Inl e \<Rightarrow> Inl e
      | Inr s \<Rightarrow> hash_axis rs key (i + 1) (hash_set h s i))"

text \<open>\<^verbatim>\<open>rowValues\<close> and \<^verbatim>\<open>colValues\<close>: the configured annotation fields, or the key field
  alone.\<close>

definition axis_fields :: "nat list option \<Rightarrow> int option \<Rightarrow> int option list" where
  "axis_fields ann vk = (case ann of Some a \<Rightarrow> map (\<lambda>i. Some (int i)) a | None \<Rightarrow> [vk])"

text \<open>One axis of one cell record in the discovery loop: a key that reads as
  \<^verbatim>\<open>undefined\<close> in the hash gets the next position and a new axis record.\<close>

definition discover_axis ::
  "int option \<Rightarrow> int option list \<Rightarrow> fieldval list \<Rightarrow> hash \<times> fieldval list list
     \<Rightarrow> error + hash \<times> fieldval list list" where
  "discover_axis vk flds vals st =
     (case toString (get_field vals vk) of
        Inl e \<Rightarrow> Inl e
      | Inr s \<Rightarrow>
          (if hash_get (fst st) s = Missing
           then Inr (hash_set (fst st) s (length (snd st)),
                     snd st @ [map (get_field vals) flds])
           else Inr st))"

text \<open>The discovery loop over \<^verbatim>\<open>heatmap.cells.values\<close>; the state is
  \<^verbatim>\<open>rowHash\<close>, \<^verbatim>\<open>heatmap.rows.values\<close>, \<^verbatim>\<open>colHash\<close> and \<^verbatim>\<open>heatmap.cols.values\<close>.\<close>

type_synonym discovery = "(hash \<times> fieldval list list) \<times> (hash \<times> fieldval list list)"

fun discover_hashes ::
  "keys \<Rightarrow> nat list option \<Rightarrow> nat list option \<Rightarrow> cell list \<Rightarrow> discovery \<Rightarrow> error + discovery"
  where
  "discover_hashes ks ra ca [] st = Inr st"
| "discover_hashes ks ra ca (Rec vals # cs) st =
     (case discover_axis (valuesRowKey ks) (axis_fields ra (valuesRowKey ks)) vals (fst st) of
        Inl e \<Rightarrow> Inl e
      | Inr rst \<Rightarrow>
          (case discover_axis (valuesColKey ks) (axis_fields ca (valuesColKey ks)) vals (snd st) of
             Inl e \<Rightarrow> Inl e
           | Inr cst \<Rightarrow> discover_hashes ks ra ca cs (rst, cst)))"
| "discover_hashes ks ra ca (Null # cs) st = discover_hashes ks ra ca cs st"
| "discover_hashes ks ra ca (Hole # cs) st = discover_hashes ks ra ca cs st"

definition build_hashes :: "keys \<Rightarrow> heatmap \<Rightarrow> error + hash \<times> hash \<times> heatmap" where
  "build_hashes ks h =
     (if data_rows h \<and> data_cols h then
        (case hash_axis (rows_values h) (rowKey ks) 0 Map.empty of
           Inl e \<Rightarrow> Inl e
         | Inr rowHash \<Rightarrow>
             (case hash_axis (cols_values h) (colKey ks) 0 Map.empty of
                Inl e \<Rightarrow> Inl e
              | Inr colHash \<Rightarrow> Inr (rowHash, colHash, h)))
      else
        (case discover_hashes ks (rows_annotations h) (cols_annotations h) (cells_values h)
                ((Map.empty, rows_values h), (Map.empty, cols_values h)) of
           Inl e \<Rightarrow> Inl e
         | Inr ((rowHash, rv), (colHash, cv)) \<Rightarrow>
             Inr (rowHash, colHash, h\<lparr>rows_values := rv, cols_values := cv\<rparr>)))"

section \<open>TsvMatrixReader.read: the cell values\<close>

text \<open>
  \<^verbatim>\<open>pos = rowIndex * cl + colIndex\<close>. When a lookup gives \<^verbatim>\<open>undefined\<close> or an inherited
  property the result is \<^verbatim>\<open>NaN\<close> or a string that is no array index (\<open>None\<close>), and
  \<^verbatim>\<open>cellValues[pos] = value\<close> then sets a property of that name and no element.
\<close>

fun offset :: "lookup \<Rightarrow> nat \<Rightarrow> lookup \<Rightarrow> nat option" where
  "offset (Pos r) cl (Pos c) = Some (r * cl + c)"
| "offset _ cl _ = None"

definition position :: "keys \<Rightarrow> hash \<Rightarrow> hash \<Rightarrow> nat \<Rightarrow> fieldval list \<Rightarrow> nat option" where
  "position ks rowHash colHash cl val =
     offset (hash_get rowHash (property_key (get_field val (valuesRowKey ks)))) cl
            (hash_get colHash (property_key (get_field val (valuesColKey ks))))"

fun store_cell :: "keys \<Rightarrow> hash \<Rightarrow> hash \<Rightarrow> nat \<Rightarrow> cell list \<Rightarrow> cell \<Rightarrow> cell list" where
  "store_cell ks rowHash colHash cl cellValues (Rec val) =
     (case position ks rowHash colHash cl val of
        Some pos \<Rightarrow> array_set Hole cellValues pos (Rec val)
      | None \<Rightarrow> cellValues)"
| "store_cell ks rowHash colHash cl cellValues Null = cellValues"
| "store_cell ks rowHash colHash cl cellValues Hole = cellValues"

fun load_cells :: "keys \<Rightarrow> hash \<Rightarrow> hash \<Rightarrow> nat \<Rightarrow> cell list \<Rightarrow> cell list \<Rightarrow> cell list" where
  "load_cells ks rowHash colHash cl [] cellValues = cellValues"
| "load_cells ks rowHash colHash cl (c # cs) cellValues =
     load_cells ks rowHash colHash cl cs (store_cell ks rowHash colHash cl cellValues c)"

definition fill_matrix :: "keys \<Rightarrow> hash \<Rightarrow> hash \<Rightarrow> heatmap \<Rightarrow> heatmap" where
  "fill_matrix ks rowHash colHash h =
     (let totalPos = length (rows_values h) * length (cols_values h);
          cl = length (cols_values h)
      in h\<lparr>cells_values :=
             load_cells ks rowHash colHash cl (cells_values h) (replicate totalPos Null)\<rparr>)"

text \<open>The keys and the hashes, as the loop over the cells finds them.\<close>

definition build_indices :: "heatmap \<Rightarrow> error + keys \<times> hash \<times> hash \<times> heatmap" where
  "build_indices h =
     (let (ks, h1) = infer_keys h
      in case build_hashes ks h1 of
           Inl e \<Rightarrow> Inl e
         | Inr (rowHash, colHash, h2) \<Rightarrow> Inr (ks, rowHash, colHash, h2))"

text \<open>
  The callback of \<^verbatim>\<open>TsvMatrixReader.read\<close> once the lines are split into
  \<^verbatim>\<open>heatmap.cells.header\<close> and \<^verbatim>\<open>heatmap.cells.values\<close>. \<^verbatim>\<open>heatmap.cells.ready = true\<close> is
  the statement after the block, so a throw inside the block (\<open>Inl\<close>) leaves the flag as
  it was.
\<close>

definition TsvMatrixReader_read :: "bool \<Rightarrow> heatmap \<Rightarrow> error + heatmap" where
  "TsvMatrixReader_read orderedValues h =
     (if orderedValues then Inr (h\<lparr>cells_ready := True\<rparr>)
      else
        (case build_indices h of
           Inl e \<Rightarrow> Inl e
         | Inr (ks, rowHash, colHash, h1) \<Rightarrow>
             Inr ((fill_matrix ks rowHash colHash h1)\<lparr>cells_ready := True\<rparr>)))"

section \<open>CdmMatrixReader.read\<close>

text \<open>\<^verbatim>\<open>heatmap.cells.values[row][k]\<close>: a TypeError when the entry is \<^verbatim>\<open>null\<close> or
  \<^verbatim>\<open>undefined\<close>.\<close>

fun cell_field :: "cell \<Rightarrow> int option \<Rightarrow> error + fieldval" where
  "cell_field (Rec val) k = Inr (get_field val k)"
| "cell_field Null k = Inl TypeError"
| "cell_field Hole k = Inl TypeError"

text \<open>The inner loop over the columns: one cell \<^verbatim>\<open>[ values[row][col + 1] ]\<close> is appended
  for each \<^verbatim>\<open>col\<close> below \<^verbatim>\<open>heatmap.cols.values.length\<close>.\<close>

fun cdm_row_cells :: "fieldval list \<Rightarrow> nat \<Rightarrow> nat \<Rightarrow> cell list \<Rightarrow> cell list" where
  "cdm_row_cells val col 0 cellValues = cellValues"
| "cdm_row_cells val col (Suc n) cellValues =
     cdm_row_cells val (col + 1) n
       (cellValues @ [Rec [get_field val (Some (int col + 1))]])"

text \<open>The loop over the rows; the state is \<^verbatim>\<open>heatmap.rows.values\<close> and
  \<^verbatim>\<open>cellValues\<close>.\<close>

fun cdm_rows ::
  "cell list \<Rightarrow> nat \<Rightarrow> fieldval list list \<times> cell list
     \<Rightarrow> error + fieldval list list \<times> cell list" where
  "cdm_rows [] ncols st = Inr st"
| "cdm_rows (c # cs) ncols st =
     (case c of
        Rec val \<Rightarrow>
          cdm_rows cs ncols
            (fst st @ [[get_field val (Some 0)]], cdm_row_cells val 0 ncols (snd st))
      | Null \<Rightarrow> Inl TypeError
      | Hole \<Rightarrow> Inl TypeError)"

definition CdmMatrixReader_read :: "heatmap \<Rightarrow> error + heatmap" where
  "CdmMatrixReader_read h =
     (let cv = cols_values h @ map (\<lambda>f. [f]) (cells_header h)
      in case cdm_rows (cells_values h) (length cv) (rows_values h, []) of
           Inl e \<Rightarrow> Inl e
         | Inr (rv, cellValues) \<Rightarrow>
             Inr (h\<lparr>cols_header := [Str ''Column''], cols_values := cv,
                    rows_header := [Str ''Row''], rows_values := rv,
                    cells_header := [Str ''Value''], cells_values := cellValues,
                    cells_ready := True\<rparr>))"

section \<open>Example tables\<close>

text \<open>A heatmap before any table is loaded.\<close>

definition empty_heatmap :: heatmap where
  "empty_heatmap =
     \<lparr>data_rows = False, data_cols = False, rows_annotations = None, cols_annotations = None,
      rows_header = [], rows_values = [], cols_header = [], cols_values = [],
      cells_header = [], cells_values = [], cells_ready = False\<rparr>"

text \<open>Both annotation tables supplied. The second cell record names a column the column
  table does not have, the third entry is \<^verbatim>\<open>null\<close>, and the fourth record has the keys of
  the first.\<close>

definition declared_example :: heatmap where
  "declared_example =
     empty_heatmap\<lparr>data_rows := True, data_cols := True,
       rows_header := [Str ''name'', Str ''id''],
       rows_values := [[Str ''Alpha'', Str ''r1''], [Str ''Beta'', Str ''r2'']],
       cols_header := [Str ''id'', Str ''sample''],
       cols_values := [[Str ''x'', Str ''c1''], [Str ''y'', Str ''c2'']],
       cells_header := [Str ''sample'', Str ''id'', Str ''value''],
       cells_values :=
         [Rec [Str ''c1'', Str ''r1'', Str ''5''], Rec [Str ''c9'', Str ''r1'', Str ''6''], Null,
          Rec [Str ''c1'', Str ''r1'', Str ''7''], Rec [Str ''c2'', Str ''r2'', Str ''8'']]\<rparr>"

text \<open>No annotation table and no annotation fields: the keys are found in the cell
  table.\<close>

definition discovery_example :: heatmap where
  "discovery_example =
     empty_heatmap\<lparr>
       cells_header := [Str ''col'', Str ''row'', Str ''value''],
       cells_values :=
         [Rec [Str ''c1'', Str ''r1'', Str ''5''], Rec [Str ''c1'', Str ''r2'', Str ''6''], Null,
          Rec [Str ''c2'', Str ''r1'', Str ''7'']]\<rparr>"

text \<open>A row table whose two records have the same key.\<close>

definition duplicate_key_example :: heatmap where
  "duplicate_key_example =
     empty_heatmap\<lparr>data_rows := True, data_cols := True,
       rows_header := [Str ''id'', Str ''name''],
       rows_values := [[Str ''a'', Str ''first''], [Str ''a'', Str ''second'']],
       cols_header := [Str ''cid''],
       cols_values := [[Str ''c'']],
       cells_header := [Str ''id'', Str ''cid'', Str ''value''],
       cells_values := [Rec [Str ''a'', Str ''c'', Str ''5'']]\<rparr>"

text \<open>Annotation tables none of whose header fields is a field of the cell header; the
  first has no records, the second has one row record.\<close>

definition no_match_example :: heatmap where
  "no_match_example =
     empty_heatmap\<lparr>data_rows := True, data_cols := True,
       rows_header := [Str ''id''],
       cols_header := [Str ''cid''],
       cells_header := [Str ''x'', Str ''y''],
       cells_values := [Rec [Str ''a'', Str ''c'']]\<rparr>"

definition no_match_rows_example :: heatmap where
  "no_match_rows_example = no_match_example\<lparr>rows_values := [[Str ''r1'']]\<rparr>"


text \<open>Only the row table supplied, with a key that two of its records have.\<close>

definition row_table_example :: heatmap where
  "row_table_example =
     empty_heatmap\<lparr>data_rows := True,
       rows_header := [Str ''id''],
       rows_values := [[Str ''a''], [Str ''b''], [Str ''b'']],
       cells_header := [Str ''col'', Str ''id'', Str ''value''],
       cells_values := [Rec [Str ''c1'', Str ''a'', Str ''5'']]\<rparr>"

text \<open>No annotation table; field 0 of the cell table is configured as the annotation
  field of the rows, and nothing is configured for the columns.\<close>

definition relocated_field_example :: heatmap where
  "relocated_field_example =
     empty_heatmap\<lparr>rows_annotations := Some [0],
       cells_header := [Str ''name'', Str ''col'', Str ''value''],
       cells_values := [Rec [Str ''r1'', Str ''c1'', Str ''5'']]\<rparr>"

text \<open>A row whose key is the name of a property every object inherits.\<close>

definition inherited_name_example :: heatmap where
  "inherited_name_example =
     empty_heatmap\<lparr>
       cells_header := [Str ''col'', Str ''row'', Str ''value''],
       cells_values := [Rec [Str ''c1'', Str ''constructor'', Str ''5'']]\<rparr>"

text \<open>Wide-format files: the header with a label for the row names, the header as the
  documentation of \<^verbatim>\<open>CdmMatrixReader\<close> shows it (the column names only), and a table with
  a record of one field and a record of five.\<close>

definition wide_label_example :: heatmap where
  "wide_label_example =
     empty_heatmap\<lparr>
       cells_header := [Str ''Row'', Str ''col1'', Str ''col2''],
       cells_values :=
         [Rec [Str ''r1'', Str ''0.11'', Str ''0.12''],
          Rec [Str ''r2'', Str ''0.21'', Str ''0.22'']]\<rparr>"

definition wide_example :: heatmap where
  "wide_example = wide_label_example\<lparr>cells_header := [Str ''col1'', Str ''col2'']\<rparr>"

definition wide_ragged_example :: heatmap where
  "wide_ragged_example =
     empty_heatmap\<lparr>
       cells_header := [Str ''col1'', Str ''col2''],
       cells_values :=
         [Rec [Str ''r1''],
          Rec [Str ''r2'', Str ''0.21'', Str ''0.22'', Str ''0.23'', Str ''0.24'']]\<rparr>"

section \<open>Searching the headers\<close>

lemma inArray_from_notin: "x \<notin> set ys \<Longrightarrow> inArray_from x ys i = -1"
  by (induction ys arbitrary: i) auto

lemma inArray_from_in:
  "x \<in> set ys \<Longrightarrow> 0 \<le> i \<Longrightarrow>
     i \<le> inArray_from x ys i \<and> inArray_from x ys i < i + int (length ys) \<and>
     ys ! nat (inArray_from x ys i - i) = x \<and>
     (\<forall>j < nat (inArray_from x ys i - i). ys ! j \<noteq> x)"
proof (induction ys arbitrary: i)
  case Nil
  then show ?case by simp
next
  case (Cons y ys)
  show ?case
  proof (cases "y = x")
    case True
    then show ?thesis by simp
  next
    case False
    with Cons.prems have mem: "x \<in> set ys" by simp
    from Cons.prems have pos: "0 \<le> i + 1" by simp
    note ih = Cons.IH [OF mem pos]
    let ?r = "inArray_from x ys (i + 1)"
    have eq: "inArray_from x (y # ys) i = ?r" using False by simp
    have n: "nat (?r - i) = Suc (nat (?r - (i + 1)))" using ih by linarith
    have "\<forall>j < nat (?r - i). (y # ys) ! j \<noteq> x"
    proof (intro allI impI)
      fix j assume j: "j < nat (?r - i)"
      show "(y # ys) ! j \<noteq> x"
      proof (cases j)
        case 0
        then show ?thesis using False by simp
      next
        case (Suc j')
        with j n have "j' < nat (?r - (i + 1))" by simp
        with ih Suc show ?thesis by simp
      qed
    qed
    with ih eq n show ?thesis by simp
  qed
qed

lemma inArray_found: "(inArray x ys > -1) = (x \<in> set ys)"
proof (cases "x \<in> set ys")
  case True
  from inArray_from_in [OF True, of 0] show ?thesis using True by (simp add: inArray_def)
next
  case False
  then show ?thesis by (simp add: inArray_def inArray_from_notin)
qed






section \<open>The keys of the annotation tables\<close>

lemma infer_row_key_keeps:
  assumes "infer_row_key h = (rk, vrk, h1)"
  shows "data_rows h1 = data_rows h" and "data_cols h1 = data_cols h"
    and "rows_annotations h1 = rows_annotations h" and "cols_annotations h1 = cols_annotations h"
    and "rows_values h1 = rows_values h" and "cols_values h1 = cols_values h"
    and "cols_header h1 = cols_header h" and "cells_values h1 = cells_values h"
    and "cells_ready h1 = cells_ready h"
  using assms
  by (auto simp: infer_row_key_def Let_def split: prod.splits if_splits option.splits)

lemma infer_col_key_keeps:
  assumes "infer_col_key v h1 = (ck, vck, h2)"
  shows "data_rows h2 = data_rows h1" and "data_cols h2 = data_cols h1"
    and "rows_annotations h2 = rows_annotations h1" and "cols_annotations h2 = cols_annotations h1"
    and "rows_values h2 = rows_values h1" and "cols_values h2 = cols_values h1"
    and "rows_header h2 = rows_header h1" and "cells_values h2 = cells_values h1"
    and "cells_ready h2 = cells_ready h1"
  using assms
  by (auto simp: infer_col_key_def Let_def split: prod.splits if_splits option.splits)

lemma infer_keys_steps:
  assumes "infer_keys h = (ks, h')"
  shows "infer_row_key h = (rowKey ks, valuesRowKey ks, snd (snd (infer_row_key h)))"
    and "infer_col_key (valuesRowKey ks) (snd (snd (infer_row_key h))) =
           (colKey ks, valuesColKey ks, h')"
  using assms by (auto simp: infer_keys_def Let_def split: prod.splits)

lemma infer_keys_row_table:
  assumes "data_rows h" and "infer_keys h = (ks, h')"
  shows "scan_row_key (rows_header h) (cells_header h) 0 None = (rowKey ks, valuesRowKey ks)"
    and "snd (snd (infer_row_key h)) = h"
proof -
  from assms(1) have "infer_row_key h =
      (fst (scan_row_key (rows_header h) (cells_header h) 0 None),
       snd (scan_row_key (rows_header h) (cells_header h) 0 None), h)"
    by (simp add: infer_row_key_def split: prod.splits)
  with infer_keys_steps(1) [OF assms(2)]
  show "scan_row_key (rows_header h) (cells_header h) 0 None = (rowKey ks, valuesRowKey ks)"
    and "snd (snd (infer_row_key h)) = h"
    by (auto simp: prod_eq_iff)
qed

lemma infer_keys_col_table:
  assumes "data_cols h" and "infer_keys h = (ks, h')"
  shows "scan_col_key (cols_header h) (cells_header h') (valuesRowKey ks) 0 None =
           (colKey ks, valuesColKey ks)"
    and "h' = snd (snd (infer_row_key h))"
proof -
  let ?h1 = "snd (snd (infer_row_key h))"
  note k = infer_row_key_keeps [OF infer_keys_steps(1) [OF assms(2)]]
  from assms(1) k(2) have d: "data_cols ?h1" by simp
  then have "infer_col_key (valuesRowKey ks) ?h1 =
      (fst (scan_col_key (cols_header ?h1) (cells_header ?h1) (valuesRowKey ks) 0 None),
       snd (scan_col_key (cols_header ?h1) (cells_header ?h1) (valuesRowKey ks) 0 None), ?h1)"
    by (simp add: infer_col_key_def split: prod.splits)
  with infer_keys_steps(2) [OF assms(2)] k(7)
  show "scan_col_key (cols_header h) (cells_header h') (valuesRowKey ks) 0 None =
           (colKey ks, valuesColKey ks)"
    and "h' = ?h1"
    by (auto simp: prod_eq_iff)
qed

lemma infer_keys_declared:
  assumes "data_rows h" and "data_cols h" and "infer_keys h = (ks, h')"
  shows "h' = h \<and>
     (rowKey ks, valuesRowKey ks) = scan_row_key (rows_header h) (cells_header h) 0 None \<and>
     (colKey ks, valuesColKey ks) =
       scan_col_key (cols_header h) (cells_header h) (valuesRowKey ks) 0 None"
  using infer_keys_row_table [OF assms(1,3)] infer_keys_col_table [OF assms(2,3)] by simp

lemma array_set_get:
  "get_field (array_set Undefined ch a Undefined) (Some (int j)) =
     (if j = a then Undefined else get_field ch (Some (int j)))"
  by (auto simp: array_set_def nth_append nth_Cons')

lemma move_annotations_get:
  "get_field (snd (move_annotations ann ah ch)) (Some (int j)) =
     (if j \<in> set ann then Undefined else get_field ch (Some (int j)))"
proof (induction ann arbitrary: ah ch)
  case Nil
  then show ?case by simp
next
  case (Cons a ann)
  have "get_field (snd (move_annotations (a # ann) ah ch)) (Some (int j)) =
        (if j \<in> set ann then Undefined
         else get_field (array_set Undefined ch a Undefined) (Some (int j)))"
    using Cons.IH by simp
  also have "\<dots> = (if j \<in> set (a # ann) then Undefined else get_field ch (Some (int j)))"
    by (simp only: array_set_get) auto
  finally show ?case .
qed

lemma infer_row_key_discovery:
  assumes "\<not> data_rows h" and "infer_keys h = (ks, h')"
  shows "valuesRowKey ks =
           (case rows_annotations h of None \<Rightarrow> Some 1 | Some ann \<Rightarrow> first_annotation ann)"
    and "rows_annotations h = None \<Longrightarrow>
           cells_header (snd (snd (infer_row_key h))) = cells_header h"
    and "get_field (cells_header (snd (snd (infer_row_key h)))) (Some (int j)) =
           (if \<exists>ann. rows_annotations h = Some ann \<and> j \<in> set ann then Undefined
            else get_field (cells_header h) (Some (int j)))"
proof -
  show "valuesRowKey ks =
           (case rows_annotations h of None \<Rightarrow> Some 1 | Some ann \<Rightarrow> first_annotation ann)"
    using infer_keys_steps(1) [OF assms(2)] assms(1)
    by (auto simp: infer_row_key_def Let_def split: option.splits prod.splits)
  show "rows_annotations h = None \<Longrightarrow>
           cells_header (snd (snd (infer_row_key h))) = cells_header h"
    using assms(1) by (simp add: infer_row_key_def)
  show "get_field (cells_header (snd (snd (infer_row_key h)))) (Some (int j)) =
           (if \<exists>ann. rows_annotations h = Some ann \<and> j \<in> set ann then Undefined
            else get_field (cells_header h) (Some (int j)))"
  proof (cases "rows_annotations h")
    case None
    with assms(1) show ?thesis by (simp add: infer_row_key_def del: get_field.simps)
  next
    case (Some ann)
    with assms(1) have "cells_header (snd (snd (infer_row_key h))) =
        snd (move_annotations ann [] (cells_header h))"
      by (simp add: infer_row_key_def Let_def split: prod.splits)
    with Some show ?thesis by (simp only: move_annotations_get) simp
  qed
qed






section \<open>The default keys of the discovery mode\<close>

lemma build_hashes_headers:
  "build_hashes ks h = Inr (rh, ch, h') \<Longrightarrow>
     rows_header h' = rows_header h \<and> cols_header h' = cols_header h \<and>
     cells_header h' = cells_header h \<and> cells_values h' = cells_values h"
  by (auto simp: build_hashes_def split: if_splits sum.splits prod.splits)

lemma read_headers:
  assumes "TsvMatrixReader_read False h = Inr hr"
  shows "rows_header hr = rows_header (snd (infer_keys h)) \<and>
         cols_header hr = cols_header (snd (infer_keys h))"
proof -
  obtain ks h1 where ik: "infer_keys h = (ks, h1)" by (cases "infer_keys h")
  from assms ik obtain rh ch h2 where bh: "build_hashes ks h1 = Inr (rh, ch, h2)"
    and hr: "hr = (fill_matrix ks rh ch h2)\<lparr>cells_ready := True\<rparr>"
    by (auto simp: TsvMatrixReader_read_def build_indices_def split: sum.splits)
  from build_hashes_headers [OF bh] hr ik show ?thesis
    by (simp add: fill_matrix_def Let_def)
qed

text \<open>
  Claim C9, as amended. Where no annotation table is supplied for an axis and no annotation
  fields are configured for it, the row key is field 1 of the cell table and the column key
  is field 0, and the axis header is that one field of the cell header. The row header is
  field 1 of the loaded cell header. The column header is read after the row step: it is
  field 0 of the loaded cell header, unless the rows have no annotation table and have
  configured annotation fields that include field 0; that field was then moved to the row
  header, and the column header is \<^verbatim>\<open>[undefined]\<close>. These keys are the ones the hashes
  are built with, and the headers are the ones the reader leaves in the heatmap.
\<close>

theorem discovery_default_keys:
  assumes "infer_keys h = (ks, h')"
  shows
    "(\<not> data_rows h \<and> rows_annotations h = None \<longrightarrow>
        rowKey ks = Some 0 \<and> valuesRowKey ks = Some 1 \<and>
        rows_header h' = [get_field (cells_header h) (Some 1)]) \<and>
     (\<not> data_cols h \<and> cols_annotations h = None \<longrightarrow>
        colKey ks = Some 0 \<and> valuesColKey ks = Some 0 \<and>
        cols_header h' =
          [if \<not> data_rows h \<and> (\<exists>ann. rows_annotations h = Some ann \<and> 0 \<in> set ann)
           then Undefined else get_field (cells_header h) (Some 0)]) \<and>
     (\<forall>ks' rowHash colHash h2. build_indices h = Inr (ks', rowHash, colHash, h2) \<longrightarrow> ks' = ks) \<and>
     (\<forall>hr. TsvMatrixReader_read False h = Inr hr \<longrightarrow>
        rows_header hr = rows_header h' \<and> cols_header hr = cols_header h')"
proof -
  let ?h1 = "snd (snd (infer_row_key h))"
  have row: "\<not> data_rows h \<and> rows_annotations h = None \<longrightarrow>
        rowKey ks = Some 0 \<and> valuesRowKey ks = Some 1 \<and>
        rows_header h' = [get_field (cells_header h) (Some 1)]"
  proof
    assume a: "\<not> data_rows h \<and> rows_annotations h = None"
    then have "infer_row_key h =
        (Some 0, Some 1, h\<lparr>rows_header := [get_field (cells_header h) (Some 1)]\<rparr>)"
      by (simp add: infer_row_key_def)
    with infer_keys_steps [OF assms] infer_col_key_keeps(7) [OF infer_keys_steps(2) [OF assms]]
    show "rowKey ks = Some 0 \<and> valuesRowKey ks = Some 1 \<and>
        rows_header h' = [get_field (cells_header h) (Some 1)]"
      by (auto simp del: get_field.simps)
  qed
  have field0: "get_field (cells_header ?h1) (Some 0) =
      (if \<not> data_rows h \<and> (\<exists>ann. rows_annotations h = Some ann \<and> 0 \<in> set ann)
       then Undefined else get_field (cells_header h) (Some 0))"
  proof (cases "data_rows h")
    case True
    from infer_keys_row_table(2) [OF True assms] True show ?thesis by simp
  next
    case False
    from infer_row_key_discovery(3) [OF False assms, of 0]
    have "get_field (cells_header ?h1) (Some 0) =
        (if \<exists>ann. rows_annotations h = Some ann \<and> 0 \<in> set ann then Undefined
         else get_field (cells_header h) (Some 0))"
      unfolding of_nat_0 .
    with False show ?thesis by (simp only: simp_thms)
  qed
  have col: "\<not> data_cols h \<and> cols_annotations h = None \<longrightarrow>
        colKey ks = Some 0 \<and> valuesColKey ks = Some 0 \<and>
        cols_header h' =
          [if \<not> data_rows h \<and> (\<exists>ann. rows_annotations h = Some ann \<and> 0 \<in> set ann)
           then Undefined else get_field (cells_header h) (Some 0)]"
  proof
    assume a: "\<not> data_cols h \<and> cols_annotations h = None"
    with infer_row_key_keeps [OF infer_keys_steps(1) [OF assms]]
    have "\<not> data_cols ?h1 \<and> cols_annotations ?h1 = None" by simp
    then have "infer_col_key (valuesRowKey ks) ?h1 =
        (Some 0, Some 0, ?h1\<lparr>cols_header := [get_field (cells_header ?h1) (Some 0)]\<rparr>)"
      by (simp add: infer_col_key_def)
    with infer_keys_steps(2) [OF assms]
    have "colKey ks = Some 0 \<and> valuesColKey ks = Some 0 \<and>
        cols_header h' = [get_field (cells_header ?h1) (Some 0)]"
      by (auto simp del: get_field.simps)
    then show "colKey ks = Some 0 \<and> valuesColKey ks = Some 0 \<and>
        cols_header h' =
          [if \<not> data_rows h \<and> (\<exists>ann. rows_annotations h = Some ann \<and> 0 \<in> set ann)
           then Undefined else get_field (cells_header h) (Some 0)]"
      by (simp only: field0)
  qed
  have ks: "\<forall>ks' rowHash colHash h2. build_indices h = Inr (ks', rowHash, colHash, h2) \<longrightarrow> ks' = ks"
    using assms by (auto simp: build_indices_def split: sum.splits)
  have hr: "\<forall>hr. TsvMatrixReader_read False h = Inr hr \<longrightarrow>
        rows_header hr = rows_header h' \<and> cols_header hr = cols_header h'"
    using read_headers [of h] assms by simp
  from row col ks hr show ?thesis by blast
qed

lemma discovery_example_keys:
  "infer_keys discovery_example =
     (\<lparr>rowKey = Some 0, valuesRowKey = Some 1, colKey = Some 0, valuesColKey = Some 0\<rparr>,
      discovery_example\<lparr>rows_header := [Str ''row''], cols_header := [Str ''col'']\<rparr>)"
  by (simp add: infer_keys_def infer_row_key_def infer_col_key_def discovery_example_def
      empty_heatmap_def)

lemma relocated_field_example_keys:
  "infer_keys relocated_field_example =
     (\<lparr>rowKey = Some 0, valuesRowKey = Some 0, colKey = Some 0, valuesColKey = Some 0\<rparr>,
      relocated_field_example
        \<lparr>rows_header := [Str ''name''],
         cells_header := [Undefined, Str ''col'', Str ''value''],
         cols_header := [Undefined]\<rparr>)"
  by (simp add: infer_keys_def infer_row_key_def infer_col_key_def relocated_field_example_def
      empty_heatmap_def array_set_def)

theorem discovery_default_keys_witness:
  "\<not> data_rows discovery_example \<and> rows_annotations discovery_example = None \<and>
   \<not> data_cols discovery_example \<and> cols_annotations discovery_example = None \<and>
   valuesRowKey (fst (infer_keys discovery_example)) = Some 1 \<and>
   valuesColKey (fst (infer_keys discovery_example)) = Some 0 \<and>
   rows_header (snd (infer_keys discovery_example)) = [Str ''row''] \<and>
   cols_header (snd (infer_keys discovery_example)) = [Str ''col''] \<and>
   \<not> data_cols relocated_field_example \<and> cols_annotations relocated_field_example = None \<and>
   valuesColKey (fst (infer_keys relocated_field_example)) = Some 0 \<and>
   cols_header (snd (infer_keys relocated_field_example)) = [Undefined]"
  using discovery_default_keys [OF discovery_example_keys]
    discovery_default_keys [OF relocated_field_example_keys]
  by (simp add: discovery_example_keys relocated_field_example_keys)
     (simp add: discovery_example_def relocated_field_example_def empty_heatmap_def)

text \<open>
  Claim C9 as the specification states it fails where field 0 is configured as the
  annotation field of the rows and nothing is configured for the columns: the column key
  is field 0, and the column header is not that field of the cell table, \<^verbatim>\<open>name\<close>, but
  \<^verbatim>\<open>undefined\<close>, in the keys and in the heatmap the reader leaves.
\<close>

theorem discovery_default_keys_counterexample:
  "\<not> data_rows relocated_field_example \<and> \<not> data_cols relocated_field_example \<and>
   rows_annotations relocated_field_example = Some [0] \<and>
   cols_annotations relocated_field_example = None \<and>
   get_field (cells_header relocated_field_example) (Some 0) = Str ''name'' \<and>
   valuesColKey (fst (infer_keys relocated_field_example)) = Some 0 \<and>
   cols_header (snd (infer_keys relocated_field_example)) = [Undefined] \<and>
   cols_header (snd (infer_keys relocated_field_example)) \<noteq> [Str ''name''] \<and>
   \<not> isl (TsvMatrixReader_read False relocated_field_example) \<and>
   cols_header (projr (TsvMatrixReader_read False relocated_field_example)) = [Undefined]"
proof -
  have r: "TsvMatrixReader_read False relocated_field_example =
     Inr (relocated_field_example
        \<lparr>rows_header := [Str ''name''],
         cells_header := [Undefined, Str ''col'', Str ''value''],
         cols_header := [Undefined],
         rows_values := [[Str ''r1'']], cols_values := [[Str ''r1'']],
         cells_values := [Rec [Str ''r1'', Str ''c1'', Str ''5'']],
         cells_ready := True\<rparr>)"
    by (simp add: TsvMatrixReader_read_def build_indices_def build_hashes_def
          relocated_field_example_keys)
       (simp add: relocated_field_example_def empty_heatmap_def discover_axis_def
          axis_fields_def hash_get_def hash_set_def Object_prototype_def fill_matrix_def
          position_def array_set_def)
  show ?thesis
    by (simp add: r relocated_field_example_keys)
       (simp add: relocated_field_example_def empty_heatmap_def)
qed

section \<open>A header with no matching field\<close>

lemma error_is_TypeError: "(e :: error) = TypeError"
  by (cases e) simp

lemma hash_axis_no_key: "rs \<noteq> [] \<Longrightarrow> hash_axis rs None i h = Inl TypeError"
  by (cases rs) simp_all

lemma scan_row_key_no_match:
  "\<forall>f\<in>set fs. f \<notin> set ch \<Longrightarrow> fst (scan_row_key fs ch i vk) = None"
  by (induction fs arbitrary: i vk) (simp_all add: inArray_found Let_def)

lemma scan_col_key_no_match:
  "\<forall>f\<in>set fs. f \<notin> set ch \<Longrightarrow> fst (scan_col_key fs ch vrk i vk) = None"
  by (induction fs arbitrary: i vk) (simp_all add: inArray_found Let_def)

lemma read_declared:
  assumes "data_rows h" and "data_cols h"
  shows "TsvMatrixReader_read False h =
     (case hash_axis (rows_values h)
             (fst (scan_row_key (rows_header h) (cells_header h) 0 None)) 0 Map.empty of
        Inl e \<Rightarrow> Inl e
      | Inr rowHash \<Rightarrow>
          (case hash_axis (cols_values h)
                  (fst (scan_col_key (cols_header h) (cells_header h)
                     (snd (scan_row_key (rows_header h) (cells_header h) 0 None)) 0 None))
                  0 Map.empty of
             Inl e \<Rightarrow> Inl e
           | Inr colHash \<Rightarrow>
               Inr ((fill_matrix (fst (infer_keys h)) rowHash colHash h)\<lparr>cells_ready := True\<rparr>)))"
proof -
  obtain ks h' where ik: "infer_keys h = (ks, h')" by (cases "infer_keys h")
  from infer_keys_declared [OF assms ik]
  have h': "h' = h"
    and r: "scan_row_key (rows_header h) (cells_header h) 0 None = (rowKey ks, valuesRowKey ks)"
    and c: "scan_col_key (cols_header h) (cells_header h) (valuesRowKey ks) 0 None =
              (colKey ks, valuesColKey ks)"
    by simp_all
  have bh: "build_hashes ks h =
     (case hash_axis (rows_values h) (rowKey ks) 0 Map.empty of
        Inl e \<Rightarrow> Inl e
      | Inr rowHash \<Rightarrow>
          (case hash_axis (cols_values h) (colKey ks) 0 Map.empty of
             Inl e \<Rightarrow> Inl e
           | Inr colHash \<Rightarrow> Inr (rowHash, colHash, h)))"
    using assms by (simp add: build_hashes_def)
  show ?thesis
  proof (cases "hash_axis (rows_values h) (rowKey ks) 0 Map.empty")
    case (Inl e)
    then show ?thesis
      by (simp add: TsvMatrixReader_read_def build_indices_def ik h' bh r)
  next
    case rows: (Inr rowHash)
    show ?thesis
    proof (cases "hash_axis (cols_values h) (colKey ks) 0 Map.empty")
      case (Inl e)
      with rows show ?thesis
        by (simp add: TsvMatrixReader_read_def build_indices_def ik h' bh r c)
    next
      case (Inr colHash)
      with rows show ?thesis
        by (simp add: TsvMatrixReader_read_def build_indices_def ik h' bh r c)
    qed
  qed
qed

text \<open>
  Claim C6, as amended. The reader has no error of its own for a failed key inference: the
  key stays \<^verbatim>\<open>undefined\<close>. With both annotation tables supplied, when no field of the row
  header (or no field of the column header) occurs in the cell header and that annotation
  table has at least one record, building its hash reads the field \<^verbatim>\<open>undefined\<close> of the
  record and calls \<^verbatim>\<open>toString\<close> on it: a TypeError is thrown, the reader stops, and
  \<^verbatim>\<open>heatmap.cells.ready\<close> is not set.
\<close>

theorem key_inference_failure:
  assumes "data_rows h" and "data_cols h"
  shows
    "((\<forall>f\<in>set (rows_header h). f \<notin> set (cells_header h)) \<and> rows_values h \<noteq> [] \<longrightarrow>
        TsvMatrixReader_read False h = Inl TypeError) \<and>
     ((\<forall>f\<in>set (cols_header h). f \<notin> set (cells_header h)) \<and> cols_values h \<noteq> [] \<longrightarrow>
        TsvMatrixReader_read False h = Inl TypeError)"
proof (intro conjI impI)
  assume a: "(\<forall>f\<in>set (rows_header h). f \<notin> set (cells_header h)) \<and> rows_values h \<noteq> []"
  then have "fst (scan_row_key (rows_header h) (cells_header h) 0 None) = None"
    by (simp add: scan_row_key_no_match)
  with a show "TsvMatrixReader_read False h = Inl TypeError"
    by (simp add: read_declared [OF assms] hash_axis_no_key)
next
  assume a: "(\<forall>f\<in>set (cols_header h). f \<notin> set (cells_header h)) \<and> cols_values h \<noteq> []"
  then have "fst (scan_col_key (cols_header h) (cells_header h)
                     (snd (scan_row_key (rows_header h) (cells_header h) 0 None)) 0 None) = None"
    by (simp add: scan_col_key_no_match)
  with a show "TsvMatrixReader_read False h = Inl TypeError"
    by (simp add: read_declared [OF assms] hash_axis_no_key error_is_TypeError split: sum.splits)
qed

theorem key_inference_failure_witness:
  "data_rows no_match_rows_example \<and> data_cols no_match_rows_example \<and>
   set (rows_header no_match_rows_example) \<inter> set (cells_header no_match_rows_example) = {} \<and>
   rows_values no_match_rows_example \<noteq> [] \<and>
   TsvMatrixReader_read False no_match_rows_example = Inl TypeError"
proof -
  have d: "data_rows no_match_rows_example" "data_cols no_match_rows_example"
    by (simp_all add: no_match_rows_example_def no_match_example_def empty_heatmap_def)
  have n: "(\<forall>f\<in>set (rows_header no_match_rows_example).
              f \<notin> set (cells_header no_match_rows_example)) \<and>
           rows_values no_match_rows_example \<noteq> []"
    by (simp add: no_match_rows_example_def no_match_example_def empty_heatmap_def)
  from key_inference_failure [OF d] n
  have "TsvMatrixReader_read False no_match_rows_example = Inl TypeError" by blast
  with d show ?thesis
    by (simp add: no_match_rows_example_def no_match_example_def empty_heatmap_def)
qed

text \<open>
  Claim C6 as the specification states it fails: with annotation tables that have no
  records, no header field matches, both keys stay \<^verbatim>\<open>undefined\<close>, nothing is thrown, and
  the reader sets \<^verbatim>\<open>heatmap.cells.ready\<close> on an empty matrix.
\<close>

theorem key_inference_failure_counterexample:
  "data_rows no_match_example \<and> data_cols no_match_example \<and>
   set (rows_header no_match_example) \<inter> set (cells_header no_match_example) = {} \<and>
   set (cols_header no_match_example) \<inter> set (cells_header no_match_example) = {} \<and>
   rowKey (fst (infer_keys no_match_example)) = None \<and>
   colKey (fst (infer_keys no_match_example)) = None \<and>
   \<not> cells_ready no_match_example \<and>
   TsvMatrixReader_read False no_match_example =
     Inr (no_match_example\<lparr>cells_values := [], cells_ready := True\<rparr>)"
  by (simp add: TsvMatrixReader_read_def build_indices_def build_hashes_def infer_keys_def
      infer_row_key_def infer_col_key_def fill_matrix_def position_def hash_get_def
      Object_prototype_def inArray_def no_match_example_def empty_heatmap_def)

section \<open>The hashes of the annotation tables\<close>

lemma hash_set_other: "k' \<noteq> k \<Longrightarrow> hash_set h k' p k = h k"
  by (simp add: hash_set_def)

lemma hash_set_same: "k \<noteq> ''__proto__'' \<Longrightarrow> hash_set h k p k = Some p"
  by (simp add: hash_set_def)

lemma hash_axis_untouched:
  "hash_axis rs key i h = Inr h' \<Longrightarrow>
     \<forall>r\<in>set rs. toString (get_field r (map_option int key)) \<noteq> Inr k \<Longrightarrow> h' k = h k"
proof (induction rs arbitrary: i h)
  case Nil
  then show ?case by simp
next
  case (Cons r rs)
  from Cons.prems(1) obtain s where s: "toString (get_field r (map_option int key)) = Inr s"
    and rest: "hash_axis rs key (i + 1) (hash_set h s i) = Inr h'"
    by (auto split: sum.splits)
  from Cons.prems(2) s have "s \<noteq> k" by auto
  moreover from Cons.prems(2) have "\<forall>r\<in>set rs. toString (get_field r (map_option int key)) \<noteq> Inr k"
    by simp
  ultimately show ?case using Cons.IH [OF rest] by (simp add: hash_set_other)
qed

lemma hash_axis_last:
  "hash_axis rs key i h = Inr h' \<Longrightarrow> k \<noteq> ''__proto__'' \<Longrightarrow> j < length rs \<Longrightarrow>
     toString (get_field (rs ! j) (map_option int key)) = Inr k \<Longrightarrow>
     \<forall>j'. j < j' \<and> j' < length rs \<longrightarrow> toString (get_field (rs ! j') (map_option int key)) \<noteq> Inr k \<Longrightarrow>
     h' k = Some (i + j)"
proof (induction rs arbitrary: i h j)
  case Nil
  then show ?case by simp
next
  case (Cons r rs)
  from Cons.prems(1) obtain s where s: "toString (get_field r (map_option int key)) = Inr s"
    and rest: "hash_axis rs key (i + 1) (hash_set h s i) = Inr h'"
    by (auto split: sum.splits)
  show ?case
  proof (cases j)
    case 0
    with Cons.prems(4) s have sk: "s = k" by simp
    have "\<forall>r'\<in>set rs. toString (get_field r' (map_option int key)) \<noteq> Inr k"
    proof
      fix r' assume "r' \<in> set rs"
      then obtain n where n: "n < length rs" "rs ! n = r'" by (auto simp: in_set_conv_nth)
      with Cons.prems(5) [rule_format, of "Suc n"] 0
      show "toString (get_field r' (map_option int key)) \<noteq> Inr k" by simp
    qed
    from hash_axis_untouched [OF rest this] sk Cons.prems(2) 0 show ?thesis
      by (simp add: hash_set_same)
  next
    case (Suc n)
    with Cons.prems have n: "n < length rs"
      and kn: "toString (get_field (rs ! n) (map_option int key)) = Inr k"
      by simp_all
    have later: "\<forall>j'. n < j' \<and> j' < length rs \<longrightarrow>
        toString (get_field (rs ! j') (map_option int key)) \<noteq> Inr k"
    proof (intro allI impI)
      fix j' assume "n < j' \<and> j' < length rs"
      with Cons.prems(5) [rule_format, of "Suc j'"] Suc
      show "toString (get_field (rs ! j') (map_option int key)) \<noteq> Inr k" by simp
    qed
    from Cons.IH [OF rest Cons.prems(2) n kn later] Suc show ?thesis by simp
  qed
qed

lemma build_indices_declared:
  assumes "data_rows h" and "data_cols h" and "build_indices h = Inr (ks, rowHash, colHash, h')"
  shows "hash_axis (rows_values h) (rowKey ks) 0 Map.empty = Inr rowHash"
    and "hash_axis (cols_values h) (colKey ks) 0 Map.empty = Inr colHash"
    and "h' = h"
proof -
  obtain ks0 h0 where ik: "infer_keys h = (ks0, h0)" by (cases "infer_keys h")
  from infer_keys_declared [OF assms(1,2) ik] have h0: "h0 = h" by simp
  from assms(3) ik h0 have bh: "build_hashes ks h = Inr (rowHash, colHash, h')" and "ks0 = ks"
    by (auto simp: build_indices_def split: sum.splits)
  from bh assms(1,2)
  show "hash_axis (rows_values h) (rowKey ks) 0 Map.empty = Inr rowHash"
    and "hash_axis (cols_values h) (colKey ks) 0 Map.empty = Inr colHash"
    and "h' = h"
    by (auto simp: build_hashes_def split: sum.splits)
qed

lemma hash_get_Pos: "hash_get h k = Pos p \<Longrightarrow> h k = Some p"
  by (auto simp: hash_get_def split: option.splits if_splits)

lemma hash_axis_sound:
  "hash_axis rs key i h = Inr h' \<Longrightarrow> h' k = Some p \<Longrightarrow>
     h k = Some p \<or>
     (i \<le> p \<and> p < i + length rs \<and>
      toString (get_field (rs ! (p - i)) (map_option int key)) = Inr k)"
proof (induction rs arbitrary: i h)
  case Nil
  then show ?case by simp
next
  case (Cons r rs)
  from Cons.prems(1) obtain s where s: "toString (get_field r (map_option int key)) = Inr s"
    and rest: "hash_axis rs key (i + 1) (hash_set h s i) = Inr h'"
    by (auto split: sum.splits)
  note ih = Cons.IH [OF rest Cons.prems(2)]
  show ?case
  proof (cases "hash_set h s i k = Some p")
    case True
    show ?thesis
    proof (cases "s \<noteq> ''__proto__'' \<and> k = s")
      case yes: True
      with True have "p = i" by (simp add: hash_set_def)
      moreover have "(r # rs) ! (i - i) = r" by simp
      ultimately show ?thesis using yes s by simp
    next
      case no: False
      with True have "h k = Some p" by (simp add: hash_set_def split: if_splits)
      then show ?thesis by (rule disjI1)
    qed
  next
    case False
    with ih have n: "i + 1 \<le> p" "p < i + 1 + length rs"
      and t: "toString (get_field (rs ! (p - (i + 1))) (map_option int key)) = Inr k"
      by blast+
    from n(1) have e: "p - i = Suc (p - (i + 1))" by linarith
    have "(r # rs) ! (p - i) = rs ! (p - (i + 1))" unfolding e by (rule nth_Cons_Suc)
    with t have "toString (get_field ((r # rs) ! (p - i)) (map_option int key)) = Inr k"
      by (simp only:)
    moreover from n have "i \<le> p" and "p < i + length (r # rs)" by simp_all
    ultimately show ?thesis by blast
  qed
qed

lemma discover_axis_lower:
  assumes "discover_axis vk flds vals st = Inr st'"
    and "n \<le> length (snd st)" and "\<forall>k p. fst st k = Some p \<longrightarrow> n \<le> p"
  shows "n \<le> length (snd st') \<and> (\<forall>k p. fst st' k = Some p \<longrightarrow> n \<le> p)"
proof -
  from assms(1) obtain s where s: "toString (get_field vals vk) = Inr s"
    by (auto simp: discover_axis_def split: sum.splits)
  show ?thesis
  proof (cases "hash_get (fst st) s = Missing")
    case True
    with assms(1) s have st': "st' = (hash_set (fst st) s (length (snd st)),
        snd st @ [map (get_field vals) flds])"
      by (simp add: discover_axis_def)
    have "\<forall>k p. hash_set (fst st) s (length (snd st)) k = Some p \<longrightarrow> n \<le> p"
    proof (intro allI impI)
      fix k p
      assume "hash_set (fst st) s (length (snd st)) k = Some p"
      then have "fst st k = Some p \<or> p = length (snd st)"
        by (simp add: hash_set_def split: if_splits)
      with assms(2,3) show "n \<le> p" by blast
    qed
    with st' assms(2) show ?thesis by simp
  next
    case False
    with assms s show ?thesis by (simp add: discover_axis_def)
  qed
qed

lemma discover_hashes_lower:
  "discover_hashes ks ra ca cs st = Inr st' \<Longrightarrow>
     n \<le> length (snd (fst st)) \<Longrightarrow> \<forall>k p. fst (fst st) k = Some p \<longrightarrow> n \<le> p \<Longrightarrow>
     m \<le> length (snd (snd st)) \<Longrightarrow> \<forall>k p. fst (snd st) k = Some p \<longrightarrow> m \<le> p \<Longrightarrow>
     (\<forall>k p. fst (fst st') k = Some p \<longrightarrow> n \<le> p) \<and>
     (\<forall>k p. fst (snd st') k = Some p \<longrightarrow> m \<le> p)"
proof (induction cs arbitrary: st)
  case Nil
  then show ?case by simp
next
  case (Cons c cs)
  show ?case
  proof (cases c)
    case (Rec vals)
    with Cons.prems(1) obtain rst cst where
      r: "discover_axis (valuesRowKey ks) (axis_fields ra (valuesRowKey ks)) vals (fst st) = Inr rst"
      and c: "discover_axis (valuesColKey ks) (axis_fields ca (valuesColKey ks)) vals (snd st) = Inr cst"
      and rest: "discover_hashes ks ra ca cs (rst, cst) = Inr st'"
      by (auto split: sum.splits)
    from discover_axis_lower [OF r Cons.prems(2,3)]
    have r1: "n \<le> length (snd rst)" and r2: "\<forall>k p. fst rst k = Some p \<longrightarrow> n \<le> p"
      by blast+
    from discover_axis_lower [OF c Cons.prems(4,5)]
    have c1: "m \<le> length (snd cst)" and c2: "\<forall>k p. fst cst k = Some p \<longrightarrow> m \<le> p"
      by blast+
    show ?thesis by (rule Cons.IH [OF rest, unfolded fst_conv snd_conv, OF r1 r2 c1 c2])
  next
    case Null
    with Cons.prems(1) have "discover_hashes ks ra ca cs st = Inr st'" by simp
    then show ?thesis by (rule Cons.IH [OF _ Cons.prems(2,3,4,5)])
  next
    case Hole
    with Cons.prems(1) have "discover_hashes ks ra ca cs st = Inr st'" by simp
    then show ?thesis by (rule Cons.IH [OF _ Cons.prems(2,3,4,5)])
  qed
qed

lemma infer_keys_keeps:
  assumes "infer_keys h = (ks, h0)"
  shows "data_rows h0 = data_rows h" and "data_cols h0 = data_cols h"
    and "rows_values h0 = rows_values h" and "cols_values h0 = cols_values h"
  using infer_row_key_keeps [OF infer_keys_steps(1) [OF assms]]
    infer_col_key_keeps [OF infer_keys_steps(2) [OF assms]]
  by simp_all

lemma build_indices_discovery:
  assumes "\<not> (data_rows h \<and> data_cols h)"
    and "build_indices h = Inr (ks, rowHash, colHash, h')"
  shows "(\<forall>k p. rowHash k = Some p \<longrightarrow> length (rows_values h) \<le> p) \<and>
         (\<forall>k p. colHash k = Some p \<longrightarrow> length (cols_values h) \<le> p)"
proof -
  obtain ks0 h0 where ik: "infer_keys h = (ks0, h0)" by (cases "infer_keys h")
  note k = infer_keys_keeps [OF ik]
  let ?d = "discover_hashes ks (rows_annotations h0) (cols_annotations h0) (cells_values h0)
          ((Map.empty, rows_values h0), (Map.empty, cols_values h0))"
  from assms(2) ik have bh: "build_hashes ks h0 = Inr (rowHash, colHash, h')"
    by (auto simp: build_indices_def split: sum.splits)
  from assms(1) k have nb: "\<not> (data_rows h0 \<and> data_cols h0)" by simp
  from nb have "build_hashes ks h0 =
      (case ?d of
         Inl e \<Rightarrow> Inl e
       | Inr ((rH, rv), (cH, cv)) \<Rightarrow> Inr (rH, cH, h0\<lparr>rows_values := rv, cols_values := cv\<rparr>))"
    unfolding build_hashes_def by (rule if_not_P)
  with bh have e: "(case ?d of
         Inl e \<Rightarrow> Inl e
       | Inr ((rH, rv), (cH, cv)) \<Rightarrow> Inr (rH, cH, h0\<lparr>rows_values := rv, cols_values := cv\<rparr>)) =
      Inr (rowHash, colHash, h')"
    by simp
  then obtain st where st: "?d = Inr st" by (cases ?d) simp_all
  obtain rH rv cH cv where c: "st = ((rH, rv), (cH, cv))" by (cases st) auto
  from e have rH: "fst (fst st) = rowHash" and cH: "fst (snd st) = colHash"
    unfolding st c by simp_all
  from discover_hashes_lower [OF st, of "length (rows_values h0)" "length (cols_values h0)"]
  have "(\<forall>k p. fst (fst st) k = Some p \<longrightarrow> length (rows_values h0) \<le> p) \<and>
        (\<forall>k p. fst (snd st) k = Some p \<longrightarrow> length (cols_values h0) \<le> p)"
    by simp
  then show ?thesis unfolding rH cH k(3) k(4) .
qed

text \<open>
  Claim C3, as amended. The hashes are built from the annotation tables only when both
  tables are supplied. Each record of an axis table then assigns its own position to its
  key, over the entry an earlier record left: a key that several records have is mapped to
  the position of its last occurrence, for the rows and for the columns. (The key
  \<^verbatim>\<open>__proto__\<close> is left out: the assignment of a number to that property has no effect.)
  Every position the index holds is the position of a record with that key, so two
  distinct positions the index holds have different keys; the positions of the earlier
  occurrences of a repeated key are in the table and not in the index. With only one of
  the tables supplied the hashes are built from the cell table by the discovery loop: no
  key is mapped to a position of a supplied table.
\<close>

theorem declared_index_last_occurrence:
  assumes "build_indices h = Inr (ks, rowHash, colHash, h')"
  shows
    "(data_rows h \<and> data_cols h \<longrightarrow>
        (\<forall>k i. k \<noteq> ''__proto__'' \<and> i < length (rows_values h) \<and>
           toString (get_field (rows_values h ! i) (map_option int (rowKey ks))) = Inr k \<and>
           (\<forall>j. i < j \<and> j < length (rows_values h) \<longrightarrow>
              toString (get_field (rows_values h ! j) (map_option int (rowKey ks))) \<noteq> Inr k) \<longrightarrow>
           hash_get rowHash k = Pos i) \<and>
        (\<forall>k i. k \<noteq> ''__proto__'' \<and> i < length (cols_values h) \<and>
           toString (get_field (cols_values h ! i) (map_option int (colKey ks))) = Inr k \<and>
           (\<forall>j. i < j \<and> j < length (cols_values h) \<longrightarrow>
              toString (get_field (cols_values h ! j) (map_option int (colKey ks))) \<noteq> Inr k) \<longrightarrow>
           hash_get colHash k = Pos i) \<and>
        (\<forall>k i. hash_get rowHash k = Pos i \<longrightarrow>
           i < length (rows_values h) \<and>
           toString (get_field (rows_values h ! i) (map_option int (rowKey ks))) = Inr k) \<and>
        (\<forall>k i. hash_get colHash k = Pos i \<longrightarrow>
           i < length (cols_values h) \<and>
           toString (get_field (cols_values h ! i) (map_option int (colKey ks))) = Inr k) \<and>
        (\<forall>k1 k2 i1 i2. hash_get rowHash k1 = Pos i1 \<and> hash_get rowHash k2 = Pos i2 \<and> i1 \<noteq> i2 \<longrightarrow>
           get_field (rows_values h ! i1) (map_option int (rowKey ks)) \<noteq>
           get_field (rows_values h ! i2) (map_option int (rowKey ks))) \<and>
        (\<forall>k1 k2 i1 i2. hash_get colHash k1 = Pos i1 \<and> hash_get colHash k2 = Pos i2 \<and> i1 \<noteq> i2 \<longrightarrow>
           get_field (cols_values h ! i1) (map_option int (colKey ks)) \<noteq>
           get_field (cols_values h ! i2) (map_option int (colKey ks)))) \<and>
     (\<not> (data_rows h \<and> data_cols h) \<longrightarrow>
        (\<forall>k p. hash_get rowHash k = Pos p \<longrightarrow> length (rows_values h) \<le> p) \<and>
        (\<forall>k p. hash_get colHash k = Pos p \<longrightarrow> length (cols_values h) \<le> p))"
proof (intro conjI impI)
  assume d: "data_rows h \<and> data_cols h"
  then have dr: "data_rows h" and dc: "data_cols h" by simp_all
  note r = build_indices_declared(1) [OF dr dc assms]
  note c = build_indices_declared(2) [OF dr dc assms]
  show "\<forall>k i. k \<noteq> ''__proto__'' \<and> i < length (rows_values h) \<and>
           toString (get_field (rows_values h ! i) (map_option int (rowKey ks))) = Inr k \<and>
           (\<forall>j. i < j \<and> j < length (rows_values h) \<longrightarrow>
              toString (get_field (rows_values h ! j) (map_option int (rowKey ks))) \<noteq> Inr k) \<longrightarrow>
           hash_get rowHash k = Pos i"
  proof (intro allI impI)
    fix k i
    assume a: "k \<noteq> ''__proto__'' \<and> i < length (rows_values h) \<and>
           toString (get_field (rows_values h ! i) (map_option int (rowKey ks))) = Inr k \<and>
           (\<forall>j. i < j \<and> j < length (rows_values h) \<longrightarrow>
              toString (get_field (rows_values h ! j) (map_option int (rowKey ks))) \<noteq> Inr k)"
    from hash_axis_last [OF r, of k i] a have "rowHash k = Some i" by simp
    then show "hash_get rowHash k = Pos i" by (simp add: hash_get_def)
  qed
  show "\<forall>k i. k \<noteq> ''__proto__'' \<and> i < length (cols_values h) \<and>
           toString (get_field (cols_values h ! i) (map_option int (colKey ks))) = Inr k \<and>
           (\<forall>j. i < j \<and> j < length (cols_values h) \<longrightarrow>
              toString (get_field (cols_values h ! j) (map_option int (colKey ks))) \<noteq> Inr k) \<longrightarrow>
           hash_get colHash k = Pos i"
  proof (intro allI impI)
    fix k i
    assume a: "k \<noteq> ''__proto__'' \<and> i < length (cols_values h) \<and>
           toString (get_field (cols_values h ! i) (map_option int (colKey ks))) = Inr k \<and>
           (\<forall>j. i < j \<and> j < length (cols_values h) \<longrightarrow>
              toString (get_field (cols_values h ! j) (map_option int (colKey ks))) \<noteq> Inr k)"
    from hash_axis_last [OF c, of k i] a have "colHash k = Some i" by simp
    then show "hash_get colHash k = Pos i" by (simp add: hash_get_def)
  qed
  show rs: "\<forall>k i. hash_get rowHash k = Pos i \<longrightarrow>
           i < length (rows_values h) \<and>
           toString (get_field (rows_values h ! i) (map_option int (rowKey ks))) = Inr k"
  proof (intro allI impI)
    fix k i
    assume "hash_get rowHash k = Pos i"
    then have "rowHash k = Some i" by (rule hash_get_Pos)
    from hash_axis_sound [OF r this]
    show "i < length (rows_values h) \<and>
           toString (get_field (rows_values h ! i) (map_option int (rowKey ks))) = Inr k"
      by simp
  qed
  show cs: "\<forall>k i. hash_get colHash k = Pos i \<longrightarrow>
           i < length (cols_values h) \<and>
           toString (get_field (cols_values h ! i) (map_option int (colKey ks))) = Inr k"
  proof (intro allI impI)
    fix k i
    assume "hash_get colHash k = Pos i"
    then have "colHash k = Some i" by (rule hash_get_Pos)
    from hash_axis_sound [OF c this]
    show "i < length (cols_values h) \<and>
           toString (get_field (cols_values h ! i) (map_option int (colKey ks))) = Inr k"
      by simp
  qed
  show "\<forall>k1 k2 i1 i2. hash_get rowHash k1 = Pos i1 \<and> hash_get rowHash k2 = Pos i2 \<and> i1 \<noteq> i2 \<longrightarrow>
           get_field (rows_values h ! i1) (map_option int (rowKey ks)) \<noteq>
           get_field (rows_values h ! i2) (map_option int (rowKey ks))"
  proof (intro allI impI notI)
    fix k1 k2 i1 i2
    assume a: "hash_get rowHash k1 = Pos i1 \<and> hash_get rowHash k2 = Pos i2 \<and> i1 \<noteq> i2"
      and e: "get_field (rows_values h ! i1) (map_option int (rowKey ks)) =
              get_field (rows_values h ! i2) (map_option int (rowKey ks))"
    from a rs have "toString (get_field (rows_values h ! i1) (map_option int (rowKey ks))) = Inr k1"
      and "toString (get_field (rows_values h ! i2) (map_option int (rowKey ks))) = Inr k2"
      by blast+
    with e have "k1 = k2" by simp
    with a show False by auto
  qed
  show "\<forall>k1 k2 i1 i2. hash_get colHash k1 = Pos i1 \<and> hash_get colHash k2 = Pos i2 \<and> i1 \<noteq> i2 \<longrightarrow>
           get_field (cols_values h ! i1) (map_option int (colKey ks)) \<noteq>
           get_field (cols_values h ! i2) (map_option int (colKey ks))"
  proof (intro allI impI notI)
    fix k1 k2 i1 i2
    assume a: "hash_get colHash k1 = Pos i1 \<and> hash_get colHash k2 = Pos i2 \<and> i1 \<noteq> i2"
      and e: "get_field (cols_values h ! i1) (map_option int (colKey ks)) =
              get_field (cols_values h ! i2) (map_option int (colKey ks))"
    from a cs have "toString (get_field (cols_values h ! i1) (map_option int (colKey ks))) = Inr k1"
      and "toString (get_field (cols_values h ! i2) (map_option int (colKey ks))) = Inr k2"
      by blast+
    with e have "k1 = k2" by simp
    with a show False by auto
  qed
next
  assume n: "\<not> (data_rows h \<and> data_cols h)"
  note b = build_indices_discovery [OF n assms]
  from b show "\<forall>k p. hash_get rowHash k = Pos p \<longrightarrow> length (rows_values h) \<le> p"
    using hash_get_Pos by blast
  from b show "\<forall>k p. hash_get colHash k = Pos p \<longrightarrow> length (cols_values h) \<le> p"
    using hash_get_Pos by blast
qed

lemma duplicate_key_example_indices:
  "build_indices duplicate_key_example =
     Inr (\<lparr>rowKey = Some 0, valuesRowKey = Some 0, colKey = Some 0, valuesColKey = Some 1\<rparr>,
          [''a'' \<mapsto> 1], [''c'' \<mapsto> 0], duplicate_key_example)"
  by (simp add: build_indices_def build_hashes_def infer_keys_def infer_row_key_def
      infer_col_key_def hash_set_def inArray_def duplicate_key_example_def empty_heatmap_def)

lemma row_table_example_indices:
  "build_indices row_table_example =
     Inr (\<lparr>rowKey = Some 0, valuesRowKey = Some 1, colKey = Some 0, valuesColKey = Some 0\<rparr>,
          [''a'' \<mapsto> 3], [''c1'' \<mapsto> 0],
          row_table_example
            \<lparr>cols_header := [Str ''col''],
             rows_values := [[Str ''a''], [Str ''b''], [Str ''b''], [Str ''a'']],
             cols_values := [[Str ''c1'']]\<rparr>)"
  by (simp add: build_indices_def build_hashes_def infer_keys_def infer_row_key_def
        infer_col_key_def inArray_def)
     (simp add: row_table_example_def empty_heatmap_def inArray_def discover_axis_def
        axis_fields_def hash_get_def hash_set_def Object_prototype_def numeral_3_eq_3)

theorem declared_index_last_occurrence_witness:
  "data_rows duplicate_key_example \<and> data_cols duplicate_key_example \<and>
   rows_values duplicate_key_example ! 0 = [Str ''a'', Str ''first''] \<and>
   rows_values duplicate_key_example ! 1 = [Str ''a'', Str ''second''] \<and>
   hash_get (fst (snd (projr (build_indices duplicate_key_example)))) ''a'' = Pos 1 \<and>
   data_rows row_table_example \<and> \<not> data_cols row_table_example \<and>
   length (rows_values row_table_example) = 3 \<and>
   hash_get (fst (snd (projr (build_indices row_table_example)))) ''a'' = Pos 3 \<and>
   hash_get (fst (snd (projr (build_indices row_table_example)))) ''b'' = Missing"
proof -
  have d: "data_rows duplicate_key_example \<and> data_cols duplicate_key_example"
    by (simp add: duplicate_key_example_def empty_heatmap_def)
  have v: "rows_values duplicate_key_example = [[Str ''a'', Str ''first''], [Str ''a'', Str ''second'']]"
    by (simp add: duplicate_key_example_def empty_heatmap_def)
  have a: "''a'' \<noteq> ''__proto__'' \<and> 1 < length (rows_values duplicate_key_example) \<and>
      toString (get_field (rows_values duplicate_key_example ! 1)
        (map_option int (rowKey \<lparr>rowKey = Some 0, valuesRowKey = Some 0, colKey = Some 0,
           valuesColKey = Some 1\<rparr>))) = Inr ''a'' \<and>
      (\<forall>j. 1 < j \<and> j < length (rows_values duplicate_key_example) \<longrightarrow>
         toString (get_field (rows_values duplicate_key_example ! j)
           (map_option int (rowKey \<lparr>rowKey = Some 0, valuesRowKey = Some 0, colKey = Some 0,
              valuesColKey = Some 1\<rparr>))) \<noteq> Inr ''a'')"
    by (simp add: v)
  note last = declared_index_last_occurrence [OF duplicate_key_example_indices,
      THEN conjunct1, THEN mp, OF d, THEN conjunct1, rule_format, of "''a''" 1]
  from last [OF a] have one: "hash_get [''a'' \<mapsto> 1] ''a'' = Pos 1" .
  have r: "data_rows row_table_example \<and> \<not> data_cols row_table_example \<and>
           length (rows_values row_table_example) = 3"
    by (simp add: row_table_example_def empty_heatmap_def)
  have n: "\<not> (data_rows row_table_example \<and> data_cols row_table_example)"
    using r by simp
  note low = declared_index_last_occurrence [OF row_table_example_indices,
      THEN conjunct2, THEN mp, OF n, THEN conjunct1, rule_format, of "''a''" 3]
  have "hash_get [''a'' \<mapsto> 3] ''a'' = Pos 3" by (simp add: hash_get_def)
  from low [OF this] have "length (rows_values row_table_example) \<le> 3" .
  with one d v r show ?thesis
    by (simp add: duplicate_key_example_indices row_table_example_indices hash_get_def
        Object_prototype_def)
qed

text \<open>
  Claim C3 as the specification states it fails: the key \<^verbatim>\<open>a\<close> of the two row records is
  mapped to position 1, the last occurrence, not to position 0; positions 0 and 1 have the
  same row key; and the cell record of that key is stored in row 1.
\<close>

theorem first_occurrence_counterexample:
  "data_rows duplicate_key_example \<and> data_cols duplicate_key_example \<and>
   get_field (rows_values duplicate_key_example ! 0) (Some 0) = Str ''a'' \<and>
   get_field (rows_values duplicate_key_example ! 1) (Some 0) = Str ''a'' \<and>
   hash_get (fst (snd (projr (build_indices duplicate_key_example)))) ''a'' = Pos 1 \<and>
   hash_get (fst (snd (projr (build_indices duplicate_key_example)))) ''a'' \<noteq> Pos 0 \<and>
   TsvMatrixReader_read False duplicate_key_example =
     Inr (duplicate_key_example
            \<lparr>cells_values := [Null, Rec [Str ''a'', Str ''c'', Str ''5'']], cells_ready := True\<rparr>)"
  by (simp add: TsvMatrixReader_read_def duplicate_key_example_indices hash_get_def)
     (simp add: fill_matrix_def position_def hash_get_def array_set_def
        duplicate_key_example_def empty_heatmap_def)

section \<open>The wide format\<close>

lemma cdm_row_cells_eq:
  "cdm_row_cells val col n acc =
     acc @ map (\<lambda>c. Rec [get_field val (Some (int c + 1))]) [col..<col + n]"
proof (induction n arbitrary: col acc)
  case 0
  then show ?case by simp
next
  case (Suc n)
  have "[col..<col + Suc n] = col # [Suc col..<Suc col + n]"
    by (simp add: upt_conv_Cons)
  with Suc.IH [of "col + 1"] show ?case by simp
qed

lemma cdm_rows_records:
  "cdm_rows (map Rec vs) ncols st =
     Inr (fst st @ map (\<lambda>v. [get_field v (Some 0)]) vs,
          snd st @ concat (map (\<lambda>v. map (\<lambda>c. Rec [get_field v (Some (int c + 1))]) [0..<ncols]) vs))"
proof (induction vs arbitrary: st)
  case Nil
  then show ?case by simp
next
  case (Cons v vs)
  show ?case by (simp add: Cons.IH cdm_row_cells_eq)
qed

lemma cdm_rows_Inr: "cdm_rows cs ncols st = Inr st' \<Longrightarrow> \<exists>vs. cs = map Rec vs"
proof (induction cs arbitrary: st)
  case Nil
  then show ?case by simp
next
  case (Cons c cs)
  from Cons.prems obtain v where c: "c = Rec v" by (cases c) simp_all
  with Cons.prems Cons.IH obtain vs where "cs = map Rec vs" by fastforce
  with c have "c # cs = map Rec (v # vs)" by simp
  then show ?case by (rule exI [of _ "v # vs"])
qed

lemma cdm_read_records:
  "cells_values h = map Rec vs \<Longrightarrow>
   CdmMatrixReader_read h =
     Inr (h\<lparr>cols_header := [Str ''Column''],
            cols_values := cols_values h @ map (\<lambda>f. [f]) (cells_header h),
            rows_header := [Str ''Row''],
            rows_values := rows_values h @ map (\<lambda>v. [get_field v (Some 0)]) vs,
            cells_header := [Str ''Value''],
            cells_values :=
              concat (map (\<lambda>v. map (\<lambda>c. Rec [get_field v (Some (int c + 1))])
                                 [0..<length (cols_values h) + length (cells_header h)]) vs),
            cells_ready := True\<rparr>)"
  by (simp add: CdmMatrixReader_read_def cdm_rows_records Let_def)

lemma length_concat_const:
  "(\<And>x. x \<in> set xs \<Longrightarrow> length (f x) = n) \<Longrightarrow> length (concat (map f xs)) = length xs * n"
  by (induction xs) simp_all

text \<open>
  Claim C8, as amended. The wide-format reader sets the row header to \<^verbatim>\<open>["Row"]\<close>, the
  column header to \<^verbatim>\<open>["Column"]\<close> and the cell header to \<^verbatim>\<open>["Value"]\<close>; each row
  record and each column record it appends has one field, and each cell is a record of one
  field. Every field of the header of the file is a column, as the documentation of the
  reader shows the format: for the header \<^verbatim>\<open>["col1","col2"]\<close> and the records
  \<^verbatim>\<open>["r1","0.11","0.12"]\<close> and \<^verbatim>\<open>["r2","0.21","0.22"]\<close> the matrix has 2 rows and 2
  columns, the key of column 0 is \<^verbatim>\<open>col1\<close> and the cell of row 1 and column 0 is
  \<^verbatim>\<open>["0.21"]\<close>.
\<close>

theorem wide_format_shape:
  "(CdmMatrixReader_read h = Inr h' \<longrightarrow>
      rows_header h' = [Str ''Row''] \<and> cols_header h' = [Str ''Column''] \<and>
      cells_header h' = [Str ''Value''] \<and> cells_ready h' \<and>
      (\<forall>r\<in>set (drop (length (rows_values h)) (rows_values h')). length r = 1) \<and>
      (\<forall>c\<in>set (drop (length (cols_values h)) (cols_values h')). length c = 1) \<and>
      (\<forall>v\<in>set (cells_values h'). \<exists>f. v = Rec [f])) \<and>
   length (rows_values (projr (CdmMatrixReader_read wide_example))) = 2 \<and>
   length (cols_values (projr (CdmMatrixReader_read wide_example))) = 2 \<and>
   cols_values (projr (CdmMatrixReader_read wide_example)) ! 0 = [Str ''col1''] \<and>
   cells_values (projr (CdmMatrixReader_read wide_example)) ! (1 * 2 + 0) = Rec [Str ''0.21'']"
proof -
  have general: "CdmMatrixReader_read h = Inr h' \<longrightarrow>
      rows_header h' = [Str ''Row''] \<and> cols_header h' = [Str ''Column''] \<and>
      cells_header h' = [Str ''Value''] \<and> cells_ready h' \<and>
      (\<forall>r\<in>set (drop (length (rows_values h)) (rows_values h')). length r = 1) \<and>
      (\<forall>c\<in>set (drop (length (cols_values h)) (cols_values h')). length c = 1) \<and>
      (\<forall>v\<in>set (cells_values h'). \<exists>f. v = Rec [f])"
  proof
    assume r: "CdmMatrixReader_read h = Inr h'"
    then obtain st' where
      "cdm_rows (cells_values h) (length (cols_values h @ map (\<lambda>f. [f]) (cells_header h)))
         (rows_values h, []) = Inr st'"
      by (auto simp: CdmMatrixReader_read_def Let_def split: sum.splits)
    from cdm_rows_Inr [OF this] obtain vs where vs: "cells_values h = map Rec vs" by blast
    from r cdm_read_records [OF vs] show
      "rows_header h' = [Str ''Row''] \<and> cols_header h' = [Str ''Column''] \<and>
       cells_header h' = [Str ''Value''] \<and> cells_ready h' \<and>
       (\<forall>r\<in>set (drop (length (rows_values h)) (rows_values h')). length r = 1) \<and>
       (\<forall>c\<in>set (drop (length (cols_values h)) (cols_values h')). length c = 1) \<and>
       (\<forall>v\<in>set (cells_values h'). \<exists>f. v = Rec [f])"
      by auto
  qed
  have ex: "cells_values wide_example =
      map Rec [[Str ''r1'', Str ''0.11'', Str ''0.12''], [Str ''r2'', Str ''0.21'', Str ''0.22'']]"
    by (simp add: wide_example_def wide_label_example_def empty_heatmap_def)
  have concrete:
    "length (rows_values (projr (CdmMatrixReader_read wide_example))) = 2 \<and>
     length (cols_values (projr (CdmMatrixReader_read wide_example))) = 2 \<and>
     cols_values (projr (CdmMatrixReader_read wide_example)) ! 0 = [Str ''col1''] \<and>
     cells_values (projr (CdmMatrixReader_read wide_example)) ! (1 * 2 + 0) = Rec [Str ''0.21'']"
    by (simp add: cdm_read_records [OF ex])
       (simp add: wide_example_def wide_label_example_def empty_heatmap_def upt_rec [of 0 2]
          upt_rec [of 1 2])
  from general concrete show ?thesis by blast
qed

theorem wide_format_shape_witness:
  "CdmMatrixReader_read wide_example =
     Inr (wide_example
            \<lparr>cols_header := [Str ''Column''], cols_values := [[Str ''col1''], [Str ''col2'']],
             rows_header := [Str ''Row''], rows_values := [[Str ''r1''], [Str ''r2'']],
             cells_header := [Str ''Value''],
             cells_values :=
               [Rec [Str ''0.11''], Rec [Str ''0.12''], Rec [Str ''0.21''], Rec [Str ''0.22'']],
             cells_ready := True\<rparr>) \<and>
   rows_header (projr (CdmMatrixReader_read wide_example)) = [Str ''Row''] \<and>
   cols_header (projr (CdmMatrixReader_read wide_example)) = [Str ''Column''] \<and>
   cells_header (projr (CdmMatrixReader_read wide_example)) = [Str ''Value'']"
proof -
  have e: "CdmMatrixReader_read wide_example =
     Inr (wide_example
            \<lparr>cols_header := [Str ''Column''], cols_values := [[Str ''col1''], [Str ''col2'']],
             rows_header := [Str ''Row''], rows_values := [[Str ''r1''], [Str ''r2'']],
             cells_header := [Str ''Value''],
             cells_values :=
               [Rec [Str ''0.11''], Rec [Str ''0.12''], Rec [Str ''0.21''], Rec [Str ''0.22'']],
             cells_ready := True\<rparr>)"
    by (simp add: CdmMatrixReader_read_def wide_example_def wide_label_example_def
        empty_heatmap_def numeral_2_eq_2)
  from wide_format_shape [of wide_example "projr (CdmMatrixReader_read wide_example)"] e
  show ?thesis by simp
qed

text \<open>
  Claim C8 as the specification states it fails on its own example: with the header
  \<^verbatim>\<open>["Row","col1","col2"]\<close> the reader makes three columns, the first of them with the
  key \<^verbatim>\<open>Row\<close>, and the third field of each row of cells is read past the end of the
  record.
\<close>

theorem wide_format_shape_counterexample:
  "cells_header wide_label_example = [Str ''Row'', Str ''col1'', Str ''col2''] \<and>
   cells_values wide_label_example =
     [Rec [Str ''r1'', Str ''0.11'', Str ''0.12''], Rec [Str ''r2'', Str ''0.21'', Str ''0.22'']] \<and>
   CdmMatrixReader_read wide_label_example =
     Inr (wide_label_example
            \<lparr>cols_header := [Str ''Column''],
             cols_values := [[Str ''Row''], [Str ''col1''], [Str ''col2'']],
             rows_header := [Str ''Row''], rows_values := [[Str ''r1''], [Str ''r2'']],
             cells_header := [Str ''Value''],
             cells_values :=
               [Rec [Str ''0.11''], Rec [Str ''0.12''], Rec [Undefined],
                Rec [Str ''0.21''], Rec [Str ''0.22''], Rec [Undefined]],
             cells_ready := True\<rparr>) \<and>
   length (cols_values (projr (CdmMatrixReader_read wide_label_example))) = 3 \<and>
   length (cols_values (projr (CdmMatrixReader_read wide_label_example))) \<noteq> 2 \<and>
   cols_values (projr (CdmMatrixReader_read wide_label_example)) ! 0 = [Str ''Row''] \<and>
   cols_values (projr (CdmMatrixReader_read wide_label_example)) ! 0 \<noteq> [Str ''col1'']"
  by (simp add: CdmMatrixReader_read_def wide_label_example_def empty_heatmap_def
      numeral_3_eq_3)

text \<open>
  Claim C10, as amended. The wide-format reader compares no field count and drops no
  record: every record of the file gives one row, keyed by its first field, and one cell
  for each column, where a field past the end of a short record is read as \<^verbatim>\<open>undefined\<close>
  and the fields of a long record past the last column are left out. The heatmap gets no
  count of such records.
\<close>

theorem wide_format_keeps_every_record:
  assumes "cells_values h = map Rec vs"
  shows
    "CdmMatrixReader_read h =
       Inr (h\<lparr>cols_header := [Str ''Column''],
              cols_values := cols_values h @ map (\<lambda>f. [f]) (cells_header h),
              rows_header := [Str ''Row''],
              rows_values := rows_values h @ map (\<lambda>v. [get_field v (Some 0)]) vs,
              cells_header := [Str ''Value''],
              cells_values :=
                concat (map (\<lambda>v. map (\<lambda>c. Rec [get_field v (Some (int c + 1))])
                                   [0..<length (cols_values h) + length (cells_header h)]) vs),
              cells_ready := True\<rparr>) \<and>
     length (rows_values (projr (CdmMatrixReader_read h))) = length (rows_values h) + length vs \<and>
     length (cells_values (projr (CdmMatrixReader_read h))) =
       length vs * length (cols_values (projr (CdmMatrixReader_read h)))"
  by (simp add: cdm_read_records [OF assms] length_concat_const)

theorem wide_format_keeps_every_record_witness:
  "cells_values wide_ragged_example =
     map Rec [[Str ''r1''], [Str ''r2'', Str ''0.21'', Str ''0.22'', Str ''0.23'', Str ''0.24'']] \<and>
   length (rows_values (projr (CdmMatrixReader_read wide_ragged_example))) = 2 \<and>
   length (cells_values (projr (CdmMatrixReader_read wide_ragged_example))) = 4"
proof -
  have e: "cells_values wide_ragged_example =
     map Rec [[Str ''r1''], [Str ''r2'', Str ''0.21'', Str ''0.22'', Str ''0.23'', Str ''0.24'']]"
    by (simp add: wide_ragged_example_def empty_heatmap_def)
  from wide_format_keeps_every_record [OF e] e show ?thesis
    by (simp add: wide_ragged_example_def empty_heatmap_def)
qed

text \<open>
  Claim C10 as the specification states it fails: the header has two fields, the first
  record has one field and the second has five, and both records are in the matrix, the
  first with two cells that hold \<^verbatim>\<open>undefined\<close>.
\<close>

theorem wide_format_drop_counterexample:
  "length (cells_header wide_ragged_example) = 2 \<and>
   cells_values wide_ragged_example =
     [Rec [Str ''r1''], Rec [Str ''r2'', Str ''0.21'', Str ''0.22'', Str ''0.23'', Str ''0.24'']] \<and>
   CdmMatrixReader_read wide_ragged_example =
     Inr (wide_ragged_example
            \<lparr>cols_header := [Str ''Column''], cols_values := [[Str ''col1''], [Str ''col2'']],
             rows_header := [Str ''Row''], rows_values := [[Str ''r1''], [Str ''r2'']],
             cells_header := [Str ''Value''],
             cells_values :=
               [Rec [Undefined], Rec [Undefined], Rec [Str ''0.21''], Rec [Str ''0.22'']],
             cells_ready := True\<rparr>)"
  by (simp add: CdmMatrixReader_read_def wide_ragged_example_def empty_heatmap_def
      numeral_2_eq_2)

section \<open>Filling the matrix\<close>

lemma array_set_length: "p < length xs \<Longrightarrow> length (array_set hole xs p v) = length xs"
  by (simp add: array_set_def)

lemma array_set_length_ge: "length xs \<le> length (array_set hole xs p v)"
  by (simp add: array_set_def)

lemma array_set_nth:
  "q < length xs \<Longrightarrow> array_set hole xs p v ! q = (if p = q then v else xs ! q)"
  by (auto simp: array_set_def nth_append)

lemma position_Some:
  "position ks rh ch cl v = Some p \<Longrightarrow>
     \<exists>r c. hash_get rh (property_key (get_field v (valuesRowKey ks))) = Pos r \<and>
           hash_get ch (property_key (get_field v (valuesColKey ks))) = Pos c \<and>
           p = r * cl + c"
  unfolding position_def
  by (cases "hash_get rh (property_key (get_field v (valuesRowKey ks)))";
      cases "hash_get ch (property_key (get_field v (valuesColKey ks)))") simp_all

lemma position_None:
  "(\<forall>r. hash_get rh (property_key (get_field v (valuesRowKey ks))) \<noteq> Pos r) \<or>
   (\<forall>c. hash_get ch (property_key (get_field v (valuesColKey ks))) \<noteq> Pos c) \<Longrightarrow>
     position ks rh ch cl v = None"
  unfolding position_def
  by (cases "hash_get rh (property_key (get_field v (valuesRowKey ks)))";
      cases "hash_get ch (property_key (get_field v (valuesColKey ks)))") auto

lemma offset_bound: "r < R \<Longrightarrow> c < C \<Longrightarrow> r * C + c < R * (C::nat)"
proof -
  assume r: "r < R" and c: "c < C"
  have "r * C + c < r * C + C" using c by simp
  also have "\<dots> = Suc r * C" by simp
  also have "\<dots> \<le> R * C" using r by (intro mult_le_mono1) simp
  finally show ?thesis .
qed

lemma position_bound:
  assumes "\<forall>k p. rh k = Some p \<longrightarrow> p < R" and "\<forall>k p. ch k = Some p \<longrightarrow> p < C"
    and "position ks rh ch C v = Some p"
  shows "p < R * C"
proof -
  from position_Some [OF assms(3)] obtain r c where
    r: "hash_get rh (property_key (get_field v (valuesRowKey ks))) = Pos r" and
    c: "hash_get ch (property_key (get_field v (valuesColKey ks))) = Pos c" and
    p: "p = r * C + c" by blast
  from hash_get_Pos [OF r] assms(1) have "r < R" by blast
  moreover from hash_get_Pos [OF c] assms(2) have "c < C" by blast
  ultimately show ?thesis using p by (simp add: offset_bound)
qed

lemma store_cell_length_ge: "length arr \<le> length (store_cell ks rh ch cl arr c)"
  by (cases c) (auto simp: array_set_length_ge split: option.splits)

lemma load_cells_length_ge: "length arr \<le> length (load_cells ks rh ch cl cs arr)"
proof (induction cs arbitrary: arr)
  case Nil
  then show ?case by simp
next
  case (Cons c cs)
  have "length arr \<le> length (store_cell ks rh ch cl arr c)" by (rule store_cell_length_ge)
  also have "\<dots> \<le> length (load_cells ks rh ch cl cs (store_cell ks rh ch cl arr c))"
    by (rule Cons.IH)
  finally show ?case by simp
qed

lemma load_cells_append:
  "load_cells ks rh ch cl (xs @ ys) arr = load_cells ks rh ch cl ys (load_cells ks rh ch cl xs arr)"
  by (induction xs arbitrary: arr) simp_all

lemma store_cell_other:
  "p < length arr \<Longrightarrow> (\<forall>v. c = Rec v \<longrightarrow> position ks rh ch cl v \<noteq> Some p) \<Longrightarrow>
     store_cell ks rh ch cl arr c ! p = arr ! p"
  by (cases c) (auto simp: array_set_nth split: option.splits)

lemma load_cells_untouched:
  "p < length arr \<Longrightarrow> \<forall>v. Rec v \<in> set cs \<longrightarrow> position ks rh ch cl v \<noteq> Some p \<Longrightarrow>
     load_cells ks rh ch cl cs arr ! p = arr ! p"
proof (induction cs arbitrary: arr)
  case Nil
  then show ?case by simp
next
  case (Cons c cs)
  have s: "store_cell ks rh ch cl arr c ! p = arr ! p"
    using Cons.prems by (intro store_cell_other) auto
  have l: "p < length (store_cell ks rh ch cl arr c)"
    using Cons.prems(1) store_cell_length_ge [of arr ks rh ch cl c] by simp
  from Cons.IH [OF l] Cons.prems(2) s show ?case by simp
qed

lemma load_cells_last:
  assumes "p < length arr" and "position ks rh ch cl v = Some p"
    and "\<forall>w. Rec w \<in> set ys \<longrightarrow> position ks rh ch cl w \<noteq> Some p"
  shows "load_cells ks rh ch cl (xs @ Rec v # ys) arr ! p = Rec v"
proof -
  let ?a = "load_cells ks rh ch cl xs arr"
  have l: "p < length ?a" using assms(1) load_cells_length_ge [of arr ks rh ch cl xs] by simp
  then have s: "store_cell ks rh ch cl ?a (Rec v) ! p = Rec v"
    using assms(2) by (simp add: array_set_nth)
  have l': "p < length (store_cell ks rh ch cl ?a (Rec v))"
    using l store_cell_length_ge [of ?a ks rh ch cl "Rec v"] by simp
  from load_cells_untouched [OF l' assms(3)] s show ?thesis
    by (simp add: load_cells_append)
qed

lemma load_cells_dropped:
  "position ks rh ch cl v = None \<Longrightarrow>
     load_cells ks rh ch cl (xs @ Rec v # ys) arr = load_cells ks rh ch cl (xs @ ys) arr"
  by (simp add: load_cells_append)

lemma store_cell_inv:
  assumes "\<forall>k p. rh k = Some p \<longrightarrow> p < R" and "\<forall>k p. ch k = Some p \<longrightarrow> p < C"
    and "length arr = R * C"
    and "\<forall>p<R * C. arr ! p = Null \<or> (\<exists>v. arr ! p = Rec v \<and> Rec v \<in> S)"
    and "c \<in> S"
  shows "length (store_cell ks rh ch C arr c) = R * C \<and>
         (\<forall>p<R * C. store_cell ks rh ch C arr c ! p = Null \<or>
                    (\<exists>v. store_cell ks rh ch C arr c ! p = Rec v \<and> Rec v \<in> S))"
proof (cases c)
  case (Rec v)
  show ?thesis
  proof (cases "position ks rh ch C v")
    case None
    with Rec assms show ?thesis by simp
  next
    case (Some q)
    from position_bound [OF assms(1,2) Some] have q: "q < R * C" .
    with Rec Some assms(3,4,5) show ?thesis
      by (auto simp: array_set_length array_set_nth)
  qed
qed (use assms in simp_all)

lemma load_cells_inv:
  assumes "\<forall>k p. rh k = Some p \<longrightarrow> p < R" and "\<forall>k p. ch k = Some p \<longrightarrow> p < C"
  shows "length arr = R * C \<Longrightarrow>
     \<forall>p<R * C. arr ! p = Null \<or> (\<exists>v. arr ! p = Rec v \<and> Rec v \<in> S) \<Longrightarrow>
     set cs \<subseteq> S \<Longrightarrow>
     length (load_cells ks rh ch C cs arr) = R * C \<and>
     (\<forall>p<R * C. load_cells ks rh ch C cs arr ! p = Null \<or>
                (\<exists>v. load_cells ks rh ch C cs arr ! p = Rec v \<and> Rec v \<in> S))"
proof (induction cs arbitrary: arr)
  case Nil
  then show ?case by simp
next
  case (Cons c cs)
  from Cons.prems(3) have c: "c \<in> S" and cs: "set cs \<subseteq> S" by simp_all
  from store_cell_inv [OF assms Cons.prems(1,2) c, of ks]
  have l: "length (store_cell ks rh ch C arr c) = R * C"
    and e: "\<forall>p<R * C. store_cell ks rh ch C arr c ! p = Null \<or>
                    (\<exists>v. store_cell ks rh ch C arr c ! p = Rec v \<and> Rec v \<in> S)"
    by blast+
  from Cons.IH [OF l e cs] show ?case by simp
qed

section \<open>The positions in the hashes\<close>

lemma hash_set_bound:
  "\<forall>k p. h k = Some p \<longrightarrow> p < n \<Longrightarrow> i < m \<Longrightarrow> n \<le> m \<Longrightarrow>
     \<forall>k p. hash_set h s i k = Some p \<longrightarrow> p < m"
  by (fastforce simp: hash_set_def split: if_splits)

lemma hash_axis_bound:
  "hash_axis rs key i h = Inr h' \<Longrightarrow> \<forall>k p. h k = Some p \<longrightarrow> p < i \<Longrightarrow>
     \<forall>k p. h' k = Some p \<longrightarrow> p < i + length rs"
proof (induction rs arbitrary: i h)
  case Nil
  then show ?case by simp
next
  case (Cons r rs)
  from Cons.prems(1) obtain s where
    rest: "hash_axis rs key (i + 1) (hash_set h s i) = Inr h'"
    by (auto split: sum.splits)
  have "\<forall>k p. hash_set h s i k = Some p \<longrightarrow> p < i + 1"
    using Cons.prems(2) by (intro hash_set_bound [where n = i]) simp_all
  from Cons.IH [OF rest this] show ?case by simp
qed

lemma discover_axis_bound:
  assumes "discover_axis vk flds vals st = Inr st'"
    and "\<forall>k p. fst st k = Some p \<longrightarrow> p < length (snd st)"
  shows "\<forall>k p. fst st' k = Some p \<longrightarrow> p < length (snd st')"
proof -
  from assms(1) obtain s where s: "toString (get_field vals vk) = Inr s"
    by (auto simp: discover_axis_def split: sum.splits)
  show ?thesis
  proof (cases "hash_get (fst st) s = Missing")
    case True
    with assms(1) s have st': "st' = (hash_set (fst st) s (length (snd st)),
        snd st @ [map (get_field vals) flds])"
      by (simp add: discover_axis_def)
    have "\<forall>k p. hash_set (fst st) s (length (snd st)) k = Some p \<longrightarrow> p < length (snd st) + 1"
      using assms(2) by (intro hash_set_bound [where n = "length (snd st)"]) simp_all
    with st' show ?thesis by simp
  next
    case False
    with assms s show ?thesis by (simp add: discover_axis_def)
  qed
qed

lemma discover_hashes_bound:
  "discover_hashes ks ra ca cs st = Inr st' \<Longrightarrow>
     \<forall>k p. fst (fst st) k = Some p \<longrightarrow> p < length (snd (fst st)) \<Longrightarrow>
     \<forall>k p. fst (snd st) k = Some p \<longrightarrow> p < length (snd (snd st)) \<Longrightarrow>
     (\<forall>k p. fst (fst st') k = Some p \<longrightarrow> p < length (snd (fst st'))) \<and>
     (\<forall>k p. fst (snd st') k = Some p \<longrightarrow> p < length (snd (snd st')))"
proof (induction cs arbitrary: st)
  case Nil
  then show ?case by simp
next
  case (Cons c cs)
  show ?case
  proof (cases c)
    case (Rec vals)
    with Cons.prems(1) obtain rst cst where
      r: "discover_axis (valuesRowKey ks) (axis_fields ra (valuesRowKey ks)) vals (fst st) = Inr rst"
      and c: "discover_axis (valuesColKey ks) (axis_fields ca (valuesColKey ks)) vals (snd st) = Inr cst"
      and rest: "discover_hashes ks ra ca cs (rst, cst) = Inr st'"
      by (auto split: sum.splits)
    from discover_axis_bound [OF r Cons.prems(2)] discover_axis_bound [OF c Cons.prems(3)]
    show ?thesis using Cons.IH [OF rest] by simp
  next
    case Null
    with Cons show ?thesis by simp
  next
    case Hole
    with Cons show ?thesis by simp
  qed
qed

lemma build_hashes_bound:
  assumes "build_hashes ks h = Inr (rh, ch, h')"
  shows "(\<forall>k p. rh k = Some p \<longrightarrow> p < length (rows_values h')) \<and>
         (\<forall>k p. ch k = Some p \<longrightarrow> p < length (cols_values h'))"
proof (cases "data_rows h \<and> data_cols h")
  case True
  with assms have r: "hash_axis (rows_values h) (rowKey ks) 0 Map.empty = Inr rh"
    and c: "hash_axis (cols_values h) (colKey ks) 0 Map.empty = Inr ch" and h': "h' = h"
    by (auto simp: build_hashes_def split: sum.splits)
  from hash_axis_bound [OF r] hash_axis_bound [OF c] h' show ?thesis by simp
next
  case False
  with assms obtain rv cv where
    d: "discover_hashes ks (rows_annotations h) (cols_annotations h) (cells_values h)
          ((Map.empty, rows_values h), (Map.empty, cols_values h)) = Inr ((rh, rv), (ch, cv))"
    and h': "h' = h\<lparr>rows_values := rv, cols_values := cv\<rparr>"
    by (auto simp: build_hashes_def split: sum.splits)
  from discover_hashes_bound [OF d] h' show ?thesis by simp
qed

lemma build_indices_bound:
  assumes "build_indices h = Inr (ks, rh, ch, h1)"
  shows "(\<forall>k p. rh k = Some p \<longrightarrow> p < length (rows_values h1)) \<and>
         (\<forall>k p. ch k = Some p \<longrightarrow> p < length (cols_values h1))"
    and "cells_values h1 = cells_values h"
proof -
  obtain ks0 h0 where ik: "infer_keys h = (ks0, h0)" by (cases "infer_keys h")
  with assms have bh: "build_hashes ks h0 = Inr (rh, ch, h1)"
    by (auto simp: build_indices_def split: sum.splits)
  from build_hashes_bound [OF bh]
  show "(\<forall>k p. rh k = Some p \<longrightarrow> p < length (rows_values h1)) \<and>
         (\<forall>k p. ch k = Some p \<longrightarrow> p < length (cols_values h1))" .
  have "cells_values h0 = cells_values h"
    using infer_row_key_keeps(8) [OF infer_keys_steps(1) [OF ik]]
      infer_col_key_keeps(8) [OF infer_keys_steps(2) [OF ik]] by simp
  with build_hashes_headers [OF bh] show "cells_values h1 = cells_values h" by simp
qed

lemma fill_matrix_keeps:
  "rows_values (fill_matrix ks rh ch h) = rows_values h"
  "cols_values (fill_matrix ks rh ch h) = cols_values h"
  "cells_values (fill_matrix ks rh ch h) =
     load_cells ks rh ch (length (cols_values h)) (cells_values h)
       (replicate (length (rows_values h) * length (cols_values h)) Null)"
  by (simp_all add: fill_matrix_def Let_def)

lemma read_build_indices:
  "build_indices h = Inr (ks, rh, ch, h1) \<Longrightarrow>
     TsvMatrixReader_read False h = Inr ((fill_matrix ks rh ch h1)\<lparr>cells_ready := True\<rparr>)"
  by (simp add: TsvMatrixReader_read_def)

lemma read_Inr:
  "TsvMatrixReader_read False h = Inr h' \<Longrightarrow>
     \<exists>ks rh ch h1. build_indices h = Inr (ks, rh, ch, h1) \<and>
        h' = (fill_matrix ks rh ch h1)\<lparr>cells_ready := True\<rparr>"
  by (auto simp: TsvMatrixReader_read_def split: sum.splits)

lemma fill_matrix_complete:
  assumes "build_indices h = Inr (ks, rh, ch, h1)"
  shows "length (cells_values (fill_matrix ks rh ch h1)) =
           length (rows_values h1) * length (cols_values h1) \<and>
         (\<forall>p<length (rows_values h1) * length (cols_values h1).
            cells_values (fill_matrix ks rh ch h1) ! p = Null \<or>
            (\<exists>v. cells_values (fill_matrix ks rh ch h1) ! p = Rec v \<and>
                 Rec v \<in> set (cells_values h)))"
proof -
  note b = build_indices_bound [OF assms]
  have "length (load_cells ks rh ch (length (cols_values h1)) (cells_values h1)
           (replicate (length (rows_values h1) * length (cols_values h1)) Null)) =
         length (rows_values h1) * length (cols_values h1) \<and>
        (\<forall>p<length (rows_values h1) * length (cols_values h1).
           load_cells ks rh ch (length (cols_values h1)) (cells_values h1)
             (replicate (length (rows_values h1) * length (cols_values h1)) Null) ! p = Null \<or>
           (\<exists>v. load_cells ks rh ch (length (cols_values h1)) (cells_values h1)
             (replicate (length (rows_values h1) * length (cols_values h1)) Null) ! p = Rec v \<and>
              Rec v \<in> set (cells_values h1)))"
    using b(1) by (intro load_cells_inv) simp_all
  with b(2) show ?thesis by (simp add: fill_matrix_keeps)
qed

section \<open>The assembled matrix\<close>

lemma declared_example_indices:
  "build_indices declared_example =
     Inr (\<lparr>rowKey = Some 1, valuesRowKey = Some 1, colKey = Some 1, valuesColKey = Some 0\<rparr>,
          [''r1'' \<mapsto> 0, ''r2'' \<mapsto> 1], [''c1'' \<mapsto> 0, ''c2'' \<mapsto> 1], declared_example)"
  by (simp add: build_indices_def build_hashes_def infer_keys_def infer_row_key_def
      infer_col_key_def hash_set_def inArray_def declared_example_def empty_heatmap_def)

lemma declared_example_read:
  "TsvMatrixReader_read False declared_example =
     Inr (declared_example
            \<lparr>cells_values :=
               [Rec [Str ''c1'', Str ''r1'', Str ''7''], Null, Null,
                Rec [Str ''c2'', Str ''r2'', Str ''8'']],
             cells_ready := True\<rparr>)"
  by (simp add: TsvMatrixReader_read_def declared_example_indices)
     (simp add: fill_matrix_def position_def hash_get_def Object_prototype_def array_set_def
        declared_example_def empty_heatmap_def numeral_2_eq_2)

lemma discovery_example_read:
  "TsvMatrixReader_read False discovery_example =
     Inr (discovery_example
            \<lparr>rows_header := [Str ''row''], cols_header := [Str ''col''],
             rows_values := [[Str ''r1''], [Str ''r2'']],
             cols_values := [[Str ''c1''], [Str ''c2'']],
             cells_values :=
               [Rec [Str ''c1'', Str ''r1'', Str ''5''], Rec [Str ''c2'', Str ''r1'', Str ''7''],
                Rec [Str ''c1'', Str ''r2'', Str ''6''], Null],
             cells_ready := True\<rparr>)"
  by (simp add: TsvMatrixReader_read_def build_indices_def build_hashes_def
        discovery_example_keys)
     (simp add: discovery_example_def empty_heatmap_def discover_axis_def axis_fields_def
        hash_get_def hash_set_def Object_prototype_def fill_matrix_def position_def
        array_set_def numeral_2_eq_2)

text \<open>
  Claim C1. When \<^verbatim>\<open>TsvMatrixReader.read\<close> completes, in every mode, the array of cell values
  has one entry for each pair of a row and a column, and the entry at offset
  \<open>i * columnCount + j\<close> is \<^verbatim>\<open>null\<close> or one of the records of the cell table: no offset is a
  hole of the array.
\<close>

theorem dense_matrix_complete:
  assumes "TsvMatrixReader_read False h = Inr h'"
  shows
    "length (cells_values h') = length (rows_values h') * length (cols_values h') \<and>
     (\<forall>i<length (rows_values h'). \<forall>j<length (cols_values h').
        cells_values h' ! (i * length (cols_values h') + j) = Null \<or>
        (\<exists>v. cells_values h' ! (i * length (cols_values h') + j) = Rec v \<and>
             Rec v \<in> set (cells_values h)))"
proof -
  from read_Inr [OF assms] obtain ks rh ch h1 where
    b: "build_indices h = Inr (ks, rh, ch, h1)" and
    h': "h' = (fill_matrix ks rh ch h1)\<lparr>cells_ready := True\<rparr>"
    by blast
  from h' have rv: "rows_values h' = rows_values h1" and cv: "cols_values h' = cols_values h1"
    and ce: "cells_values h' = cells_values (fill_matrix ks rh ch h1)"
    by (simp_all add: fill_matrix_keeps)
  note c = fill_matrix_complete [OF b]
  have "\<forall>i<length (rows_values h1). \<forall>j<length (cols_values h1).
        cells_values (fill_matrix ks rh ch h1) ! (i * length (cols_values h1) + j) = Null \<or>
        (\<exists>v. cells_values (fill_matrix ks rh ch h1) ! (i * length (cols_values h1) + j) = Rec v \<and>
             Rec v \<in> set (cells_values h))"
  proof (intro allI impI)
    fix i j
    assume "i < length (rows_values h1)" and "j < length (cols_values h1)"
    then have "i * length (cols_values h1) + j < length (rows_values h1) * length (cols_values h1)"
      by (rule offset_bound)
    with c show "cells_values (fill_matrix ks rh ch h1) ! (i * length (cols_values h1) + j) = Null \<or>
        (\<exists>v. cells_values (fill_matrix ks rh ch h1) ! (i * length (cols_values h1) + j) = Rec v \<and>
             Rec v \<in> set (cells_values h))"
      by blast
  qed
  with c show ?thesis unfolding rv cv ce by blast
qed

theorem dense_matrix_complete_witness:
  "length (cells_values (projr (TsvMatrixReader_read False declared_example))) = 2 * 2 \<and>
   length (rows_values (projr (TsvMatrixReader_read False declared_example))) = 2 \<and>
   length (cols_values (projr (TsvMatrixReader_read False declared_example))) = 2 \<and>
   Hole \<notin> set (cells_values (projr (TsvMatrixReader_read False declared_example))) \<and>
   length (cells_values (projr (TsvMatrixReader_read False discovery_example))) = 2 * 2 \<and>
   length (rows_values (projr (TsvMatrixReader_read False discovery_example))) = 2 \<and>
   length (cols_values (projr (TsvMatrixReader_read False discovery_example))) = 2 \<and>
   Hole \<notin> set (cells_values (projr (TsvMatrixReader_read False discovery_example)))"
  using dense_matrix_complete [OF declared_example_read]
    dense_matrix_complete [OF discovery_example_read]
  by (simp add: declared_example_read discovery_example_read)
     (simp add: declared_example_def discovery_example_def empty_heatmap_def)

text \<open>
  Claim C2. A cell record whose row key or column key has no position in its hash is
  dropped without an error: once the hashes are built the reader completes, whatever the
  cell records are; the store of such a record leaves the array as it is, and the matrix
  is the one the table without that record gives; an offset that no record of the cell
  table resolves to holds \<^verbatim>\<open>null\<close>.
\<close>

theorem unresolved_record_dropped:
  assumes "build_indices h = Inr (ks, rowHash, colHash, h1)"
  shows
    "TsvMatrixReader_read False h =
       Inr ((fill_matrix ks rowHash colHash h1)\<lparr>cells_ready := True\<rparr>) \<and>
     ((\<forall>r. hash_get rowHash (property_key (get_field v (valuesRowKey ks))) \<noteq> Pos r) \<or>
      (\<forall>c. hash_get colHash (property_key (get_field v (valuesColKey ks))) \<noteq> Pos c) \<longrightarrow>
        position ks rowHash colHash cl v = None \<and>
        store_cell ks rowHash colHash cl cellValues (Rec v) = cellValues \<and>
        load_cells ks rowHash colHash cl (xs @ Rec v # ys) cellValues =
          load_cells ks rowHash colHash cl (xs @ ys) cellValues) \<and>
     (\<forall>p<length (rows_values h1) * length (cols_values h1).
        (\<forall>w. Rec w \<in> set (cells_values h) \<longrightarrow>
           position ks rowHash colHash (length (cols_values h1)) w \<noteq> Some p) \<longrightarrow>
        cells_values (fill_matrix ks rowHash colHash h1) ! p = Null)"
proof (intro conjI impI allI)
  show "TsvMatrixReader_read False h =
       Inr ((fill_matrix ks rowHash colHash h1)\<lparr>cells_ready := True\<rparr>)"
    by (rule read_build_indices [OF assms])
next
  assume "(\<forall>r. hash_get rowHash (property_key (get_field v (valuesRowKey ks))) \<noteq> Pos r) \<or>
      (\<forall>c. hash_get colHash (property_key (get_field v (valuesColKey ks))) \<noteq> Pos c)"
  then have n: "position ks rowHash colHash cl v = None" by (rule position_None)
  show "position ks rowHash colHash cl v = None" by (rule n)
  show "store_cell ks rowHash colHash cl cellValues (Rec v) = cellValues" using n by simp
  show "load_cells ks rowHash colHash cl (xs @ Rec v # ys) cellValues =
          load_cells ks rowHash colHash cl (xs @ ys) cellValues"
    by (rule load_cells_dropped [OF n])
next
  fix p
  assume p: "p < length (rows_values h1) * length (cols_values h1)"
    and u: "\<forall>w. Rec w \<in> set (cells_values h) \<longrightarrow>
           position ks rowHash colHash (length (cols_values h1)) w \<noteq> Some p"
  from build_indices_bound(2) [OF assms] u
  have u1: "\<forall>w. Rec w \<in> set (cells_values h1) \<longrightarrow>
           position ks rowHash colHash (length (cols_values h1)) w \<noteq> Some p"
    by simp
  have "load_cells ks rowHash colHash (length (cols_values h1)) (cells_values h1)
          (replicate (length (rows_values h1) * length (cols_values h1)) Null) ! p =
        replicate (length (rows_values h1) * length (cols_values h1)) Null ! p"
    using p u1 by (intro load_cells_untouched) simp_all
  with p show "cells_values (fill_matrix ks rowHash colHash h1) ! p = Null"
    by (simp add: fill_matrix_keeps)
qed

theorem unresolved_record_dropped_witness:
  "cells_values declared_example ! 1 = Rec [Str ''c9'', Str ''r1'', Str ''6''] \<and>
   hash_get [''c1'' \<mapsto> 0, ''c2'' \<mapsto> 1] ''c9'' = Missing \<and>
   TsvMatrixReader_read False declared_example =
     Inr (declared_example
            \<lparr>cells_values :=
               [Rec [Str ''c1'', Str ''r1'', Str ''7''], Null, Null,
                Rec [Str ''c2'', Str ''r2'', Str ''8'']],
             cells_ready := True\<rparr>) \<and>
   store_cell (fst (projr (build_indices declared_example))) [''r1'' \<mapsto> 0, ''r2'' \<mapsto> 1]
     [''c1'' \<mapsto> 0, ''c2'' \<mapsto> 1] 2 [Null, Null, Null, Null]
     (Rec [Str ''c9'', Str ''r1'', Str ''6'']) = [Null, Null, Null, Null]"
proof -
  let ?ks = "\<lparr>rowKey = Some 1, valuesRowKey = Some 1, colKey = Some 1, valuesColKey = Some 0\<rparr>"
  have m: "\<forall>c. hash_get [''c1'' \<mapsto> 0, ''c2'' \<mapsto> 1]
             (property_key (get_field [Str ''c9'', Str ''r1'', Str ''6''] (valuesColKey ?ks))) \<noteq> Pos c"
    by (simp add: hash_get_def Object_prototype_def)
  from unresolved_record_dropped [OF declared_example_indices,
      of "[Str ''c9'', Str ''r1'', Str ''6'']" 2 "[Null, Null, Null, Null]" "[]" "[]"] m
  have "store_cell ?ks [''r1'' \<mapsto> 0, ''r2'' \<mapsto> 1] [''c1'' \<mapsto> 0, ''c2'' \<mapsto> 1] 2
          [Null, Null, Null, Null] (Rec [Str ''c9'', Str ''r1'', Str ''6'']) =
        [Null, Null, Null, Null]"
    by blast
  then show ?thesis
    by (simp add: declared_example_read declared_example_indices hash_get_def
          Object_prototype_def)
       (simp add: declared_example_def empty_heatmap_def)
qed

text \<open>
  Claim C4. Of the cell records that resolve to the same row and column, the last one in
  the order of the cell table is the value of the matrix at offset
  \<open>row * columnCount + column\<close>: a record that resolves to an offset, and that no later
  record resolves to, is the entry at that offset, whatever earlier records were stored
  there.
\<close>

theorem last_record_wins:
  assumes "build_indices h = Inr (ks, rowHash, colHash, h1)"
    and "cells_values h = xs @ Rec v # ys"
    and "hash_get rowHash (property_key (get_field v (valuesRowKey ks))) = Pos r"
    and "hash_get colHash (property_key (get_field v (valuesColKey ks))) = Pos c"
    and "\<forall>w. Rec w \<in> set ys \<longrightarrow>
           position ks rowHash colHash (length (cols_values h1)) w \<noteq>
             Some (r * length (cols_values h1) + c)"
  shows
    "\<not> isl (TsvMatrixReader_read False h) \<and>
     length (cols_values (projr (TsvMatrixReader_read False h))) = length (cols_values h1) \<and>
     r < length (rows_values (projr (TsvMatrixReader_read False h))) \<and>
     c < length (cols_values (projr (TsvMatrixReader_read False h))) \<and>
     cells_values (projr (TsvMatrixReader_read False h)) ! (r * length (cols_values h1) + c) =
       Rec v"
proof -
  let ?cl = "length (cols_values h1)"
  note b = build_indices_bound [OF assms(1)]
  from hash_get_Pos [OF assms(3)] b(1) have r: "r < length (rows_values h1)" by blast
  from hash_get_Pos [OF assms(4)] b(1) have c: "c < ?cl" by blast
  have pos: "position ks rowHash colHash ?cl v = Some (r * ?cl + c)"
    using assms(3,4) by (simp add: position_def)
  have p: "r * ?cl + c < length (replicate (length (rows_values h1) * ?cl) Null)"
    using offset_bound [OF r c] by simp
  from load_cells_last [OF p pos assms(5), of xs] b(2) assms(2)
  have "cells_values (fill_matrix ks rowHash colHash h1) ! (r * ?cl + c) = Rec v"
    by (simp add: fill_matrix_keeps)
  with r c show ?thesis
    by (simp add: read_build_indices [OF assms(1)] fill_matrix_keeps)
qed

theorem last_record_wins_witness:
  "cells_values declared_example =
     [Rec [Str ''c1'', Str ''r1'', Str ''5''], Rec [Str ''c9'', Str ''r1'', Str ''6''], Null] @
     Rec [Str ''c1'', Str ''r1'', Str ''7''] # [Rec [Str ''c2'', Str ''r2'', Str ''8'']] \<and>
   position (fst (projr (build_indices declared_example))) [''r1'' \<mapsto> 0, ''r2'' \<mapsto> 1]
     [''c1'' \<mapsto> 0, ''c2'' \<mapsto> 1] 2 [Str ''c1'', Str ''r1'', Str ''5''] = Some 0 \<and>
   position (fst (projr (build_indices declared_example))) [''r1'' \<mapsto> 0, ''r2'' \<mapsto> 1]
     [''c1'' \<mapsto> 0, ''c2'' \<mapsto> 1] 2 [Str ''c1'', Str ''r1'', Str ''7''] = Some 0 \<and>
   cells_values (projr (TsvMatrixReader_read False declared_example)) ! 0 =
     Rec [Str ''c1'', Str ''r1'', Str ''7'']"
proof -
  let ?ks = "\<lparr>rowKey = Some 1, valuesRowKey = Some 1, colKey = Some 1, valuesColKey = Some 0\<rparr>"
  let ?rh = "[''r1'' \<mapsto> 0::nat, ''r2'' \<mapsto> 1]"
  let ?ch = "[''c1'' \<mapsto> 0::nat, ''c2'' \<mapsto> 1]"
  have cv: "cells_values declared_example =
     [Rec [Str ''c1'', Str ''r1'', Str ''5''], Rec [Str ''c9'', Str ''r1'', Str ''6''], Null] @
     Rec [Str ''c1'', Str ''r1'', Str ''7''] # [Rec [Str ''c2'', Str ''r2'', Str ''8'']]"
    by (simp add: declared_example_def empty_heatmap_def)
  have r: "hash_get ?rh (property_key (get_field [Str ''c1'', Str ''r1'', Str ''7''] (valuesRowKey ?ks))) = Pos 0"
    by (simp add: hash_get_def)
  have c: "hash_get ?ch (property_key (get_field [Str ''c1'', Str ''r1'', Str ''7''] (valuesColKey ?ks))) = Pos 0"
    by (simp add: hash_get_def)
  have later: "\<forall>w. Rec w \<in> set [Rec [Str ''c2'', Str ''r2'', Str ''8'']] \<longrightarrow>
      position ?ks ?rh ?ch (length (cols_values declared_example)) w \<noteq>
        Some (0 * length (cols_values declared_example) + 0)"
    by (simp add: position_def hash_get_def declared_example_def empty_heatmap_def)
  from last_record_wins [OF declared_example_indices cv r c later]
  have "cells_values (projr (TsvMatrixReader_read False declared_example)) ! 0 =
     Rec [Str ''c1'', Str ''r1'', Str ''7'']"
    by simp
  with cv show ?thesis
    by (simp add: declared_example_indices position_def hash_get_def)
qed

section \<open>The discovery of the keys\<close>

text \<open>One axis of one record: a key that is new and is no inherited name gets the next
  position and an axis record of the configured fields; a key that has a position changes
  nothing.\<close>

lemma discover_axis_new_key:
  "toString (get_field vals vk) = Inr s \<Longrightarrow> h s = None \<Longrightarrow> s \<notin> set Object_prototype \<Longrightarrow>
     discover_axis vk flds vals (h, axis) =
       Inr (h(s \<mapsto> length axis), axis @ [map (get_field vals) flds])"
  by (auto simp: discover_axis_def hash_get_def hash_set_def Object_prototype_def)

lemma discover_axis_seen_key:
  "toString (get_field vals vk) = Inr s \<Longrightarrow> h s = Some p \<Longrightarrow>
     discover_axis vk flds vals (h, axis) = Inr (h, axis)"
  by (simp add: discover_axis_def hash_get_def)

text \<open>A key that is the name of an inherited property never reads as \<^verbatim>\<open>undefined\<close>: it
  gets no position, although no record before it had that key.\<close>

lemma discover_axis_inherited_key:
  "toString (get_field vals vk) = Inr s \<Longrightarrow> s \<in> set Object_prototype \<Longrightarrow>
     discover_axis vk flds vals (Map.empty, axis) = Inr (Map.empty, axis)"
  by (simp add: discover_axis_def hash_get_def)

text \<open>
  Claim C7 at a cell table whose only record has the row key \<^verbatim>\<open>constructor\<close>: the key was
  not seen before, and the discovery loop gives it no position and appends no row record.
  The row hash stays empty, the matrix has no row, and the record is in no cell, while
  its column key \<^verbatim>\<open>c1\<close> gets position 0 and a column record.
\<close>

theorem inherited_key_not_indexed:
  "\<not> data_rows inherited_name_example \<and> \<not> data_cols inherited_name_example \<and>
   cells_values inherited_name_example = [Rec [Str ''c1'', Str ''constructor'', Str ''5'']] \<and>
   build_indices inherited_name_example =
     Inr (\<lparr>rowKey = Some 0, valuesRowKey = Some 1, colKey = Some 0, valuesColKey = Some 0\<rparr>,
          Map.empty, [''c1'' \<mapsto> 0],
          inherited_name_example
            \<lparr>rows_header := [Str ''row''], cols_header := [Str ''col''],
             cols_values := [[Str ''c1'']]\<rparr>) \<and>
   hash_get Map.empty ''constructor'' = Inherited \<and>
   rows_values (projr (TsvMatrixReader_read False inherited_name_example)) = [] \<and>
   cols_values (projr (TsvMatrixReader_read False inherited_name_example)) = [[Str ''c1'']] \<and>
   cells_values (projr (TsvMatrixReader_read False inherited_name_example)) = []"
proof -
  have k: "infer_keys inherited_name_example =
     (\<lparr>rowKey = Some 0, valuesRowKey = Some 1, colKey = Some 0, valuesColKey = Some 0\<rparr>,
      inherited_name_example\<lparr>rows_header := [Str ''row''], cols_header := [Str ''col'']\<rparr>)"
    by (simp add: infer_keys_def infer_row_key_def infer_col_key_def inherited_name_example_def
        empty_heatmap_def)
  have b: "build_indices inherited_name_example =
     Inr (\<lparr>rowKey = Some 0, valuesRowKey = Some 1, colKey = Some 0, valuesColKey = Some 0\<rparr>,
          Map.empty, [''c1'' \<mapsto> 0],
          inherited_name_example
            \<lparr>rows_header := [Str ''row''], cols_header := [Str ''col''],
             cols_values := [[Str ''c1'']]\<rparr>)"
    by (simp add: build_indices_def build_hashes_def k)
       (simp add: inherited_name_example_def empty_heatmap_def discover_axis_def axis_fields_def
          hash_get_def hash_set_def Object_prototype_def)
  have r: "TsvMatrixReader_read False inherited_name_example =
     Inr (inherited_name_example
            \<lparr>rows_header := [Str ''row''], cols_header := [Str ''col''],
             cols_values := [[Str ''c1'']], cells_values := [], cells_ready := True\<rparr>)"
    by (simp add: TsvMatrixReader_read_def b)
       (simp add: fill_matrix_def position_def hash_get_def Object_prototype_def
          inherited_name_example_def empty_heatmap_def)
  show ?thesis
    by (simp add: b r hash_get_def Object_prototype_def)
       (simp add: inherited_name_example_def empty_heatmap_def)
qed

end
